theory Spec2Isabelle
  imports Complex_Main
begin

section \<open>Strings\<close>

text \<open>
  A JavaScript string is a sequence of UTF-16 code units. It is modelled as the list of
  those code units, each a natural number. \<open>asc\<close> turns an ASCII literal into such a
  list; the Turkish letters of the source's messages are written by their code units.
\<close>

type_synonym ustring = "nat list"

definition asc :: "string \<Rightarrow> ustring" where
  "asc s = map of_char s"

text \<open>\<open>String.prototype.startsWith\<close> at position 0 and \<open>String.prototype.includes\<close>.\<close>

fun startsWith :: "ustring \<Rightarrow> ustring \<Rightarrow> bool" where
  "startsWith s [] = True"
| "startsWith [] (c # cs) = False"
| "startsWith (x # xs) (c # cs) = (x = c \<and> startsWith xs cs)"

fun str_includes :: "ustring \<Rightarrow> ustring \<Rightarrow> bool" where
  "str_includes [] sub = (sub = [])"
| "str_includes (x # xs) sub = (startsWith (x # xs) sub \<or> str_includes xs sub)"

text \<open>
  \<open>String.prototype.toLowerCase\<close>, on the ASCII letters: \<open>A\<close> to \<open>Z\<close> become
  \<open>a\<close> to \<open>z\<close>. Every other code unit is kept; the Unicode case mapping of
  non-ASCII capitals is outside this model.
\<close>

definition lower_unit :: "nat \<Rightarrow> nat" where
  "lower_unit c = (if 65 \<le> c \<and> c \<le> 90 then c + 32 else c)"

definition toLowerCase :: "ustring \<Rightarrow> ustring" where
  "toLowerCase s = map lower_unit s"

text \<open>The character classes \<open>\d\<close>, \<open>\w\<close> and \<open>\s\<close> of a regular expression without flags.\<close>

definition is_digit :: "nat \<Rightarrow> bool" where
  "is_digit c = (48 \<le> c \<and> c \<le> 57)"

definition is_word :: "nat \<Rightarrow> bool" where
  "is_word c = ((48 \<le> c \<and> c \<le> 57) \<or> (65 \<le> c \<and> c \<le> 90) \<or> (97 \<le> c \<and> c \<le> 122) \<or> c = 95)"

definition is_space :: "nat \<Rightarrow> bool" where
  "is_space c = ((9 \<le> c \<and> c \<le> 13) \<or> c = 32 \<or> c = 160 \<or> c = 5760
     \<or> (8192 \<le> c \<and> c \<le> 8202) \<or> c = 8232 \<or> c = 8233 \<or> c = 8239 \<or> c = 8287
     \<or> c = 12288 \<or> c = 65279)"

text \<open>The line terminators, which \<open>.\<close> does not match.\<close>

definition is_line_terminator :: "nat \<Rightarrow> bool" where
  "is_line_terminator c = (c = 10 \<or> c = 13 \<or> c = 8232 \<or> c = 8233)"


section \<open>Prompts (App.tsx)\<close>

definition DECADES :: "ustring list" where
  "DECADES = [asc ''1950 ler'', asc ''1960 lar'', asc ''1970 ler'', asc ''1980 ler'',
              asc ''1990 lar'', asc ''2000 ler'']"

datatype GenerationStyle = strict | creative | turkish

fun getPromptForDecade :: "GenerationStyle \<Rightarrow> ustring \<Rightarrow> ustring" where
  "getPromptForDecade strict decade =
     asc ''Reimagine the person in this photo in the style of the '' @ decade
     @ asc ''. It is crucial to maintain the person's core facial features and identity as closely as possible. This includes clothing, hairstyle, photo quality, and the overall aesthetic of that decade. The output must be a photorealistic image showing the person clearly.''"
| "getPromptForDecade creative decade =
     asc ''Take creative inspiration from the person in this photo to create a new portrait in the style of the '' @ decade
     @ asc ''. The new image should reflect the fashion, hairstyles, and overall atmosphere of that era, with artistic freedom to reinterpret the person's appearance. The output must be a photorealistic image.''"
| "getPromptForDecade turkish decade =
     asc ''Reimagine the person in this photo in the style of the '' @ decade
     @ asc '' in Turkey, with a '' @ [34] @ asc ''Turkish style'' @ [34]
     @ asc ''. Incorporate authentic Turkish fashion, hairstyles, and aesthetics from that era. Think about Turkish Ye''
     @ [351] @ asc ''il'' @ [231] @ asc ''am movies, popular musicians like Bar'' @ [305, 351]
     @ asc '' Man'' @ [231] @ asc ''o or Ajda Pekkan, and everyday life in Turkey during the '' @ decade
     @ asc ''. Maintain the person's core facial features but place them convincingly into a Turkish context of the time. The output must be a photorealistic image showing the person clearly.''"


section \<open>Helper functions (services/geminiService.ts)\<close>

definition getFallbackPrompt :: "ustring \<Rightarrow> ustring" where
  "getFallbackPrompt decade =
     asc ''Create a photograph of the person in this image as if they were living in the '' @ decade
     @ asc ''. The photograph should capture the distinct fashion, hairstyles, and overall atmosphere of that time period. Ensure the final image is a clear photograph that looks authentic to the era.''"

text \<open>
  \<open>extractDecade\<close> searches the prompt for the regular expression
  \<^verbatim>\<open>(19\d{2}\sler|2000\sler)\<close>. \<open>decade_here\<close> tries both alternatives at the start
  of its argument, the first alternative first; each matches exactly eight code units.
  \<open>extractDecade\<close> returns the leftmost match, or \<open>None\<close> for \<open>null\<close>.
\<close>

fun decade_here :: "ustring \<Rightarrow> ustring option" where
  "decade_here (a # b # c # d # e # f # g # h # rest) =
     (if a = 49 \<and> b = 57 \<and> is_digit c \<and> is_digit d \<and> is_space e
         \<and> f = 108 \<and> g = 101 \<and> h = 114
      then Some [a, b, c, d, e, f, g, h]
      else if a = 50 \<and> b = 48 \<and> c = 48 \<and> d = 48 \<and> is_space e
         \<and> f = 108 \<and> g = 101 \<and> h = 114
      then Some [a, b, c, d, e, f, g, h]
      else None)"
| "decade_here s = None"

fun extractDecade :: "ustring \<Rightarrow> ustring option" where
  "extractDecade [] = None"
| "extractDecade (x # xs) =
     (case decade_here (x # xs) of
        Some m \<Rightarrow> Some m
      | None \<Rightarrow> extractDecade xs)"


text \<open>No code unit of \<open>s\<close> is \<open>1\<close> or \<open>2\<close>: no match can start inside \<open>s\<close>.\<close>

definition no_start :: "ustring \<Rightarrow> bool" where
  "no_start s = list_all (\<lambda>c. c \<noteq> 49 \<and> c \<noteq> 50) s"


section \<open>Values, errors and the platform\<close>

text \<open>
  The values \<open>JSON.parse\<close> can produce, with \<open>undefined\<close> added. An object is the list
  of its own properties. Numbers are rationals: the claims only compare a number with
  \<open>429\<close> and test it for zero.
\<close>

datatype jsval =
    JUndefined
  | JNull
  | JBool bool
  | JNum rat
  | JStr ustring
  | JArr "jsval list"
  | JObj "(ustring \<times> jsval) list"

text \<open>
  Property access with optional chaining, \<open>v?.k\<close>, for a name \<open>k\<close> that no prototype
  defines (\<open>error\<close>, \<open>status\<close>, \<open>code\<close>, \<open>message\<close>): the own property of an
  object, \<open>undefined\<close> on everything else.
\<close>

fun get_prop :: "jsval \<Rightarrow> ustring \<Rightarrow> jsval" where
  "get_prop (JObj kvs) k = (case map_of kvs k of Some v \<Rightarrow> v | None \<Rightarrow> JUndefined)"
| "get_prop v k = JUndefined"

text \<open>Truthiness, as \<open>||\<close> and \<open>if\<close> test it.\<close>

fun truthy :: "jsval \<Rightarrow> bool" where
  "truthy JUndefined = False"
| "truthy JNull = False"
| "truthy (JBool b) = b"
| "truthy (JNum n) = (n \<noteq> 0)"
| "truthy (JStr s) = (s \<noteq> [])"
| "truthy (JArr xs) = True"
| "truthy (JObj kvs) = True"

text \<open>
  What the source takes from the JavaScript runtime, as parameters of the model:
  \<open>JSON.parse\<close> (\<open>None\<close> when it throws a \<open>SyntaxError\<close>), \<open>JSON.stringify\<close>
  (\<open>None\<close> when it returns \<open>undefined\<close>), the conversion of a value that is not a
  string to a string, and the message of the \<open>TypeError\<close> the engine raises when
  \<open>includes\<close> is called on a value that has no such method.
\<close>

record platform =
  JSON_parse :: "ustring \<Rightarrow> jsval option"
  JSON_stringify :: "jsval \<Rightarrow> ustring option"
  ToString :: "jsval \<Rightarrow> ustring"
  includes_TypeError :: "jsval \<Rightarrow> ustring"

definition to_string :: "platform \<Rightarrow> jsval \<Rightarrow> ustring" where
  "to_string pf v = (case v of JStr s \<Rightarrow> s | _ \<Rightarrow> ToString pf v)"

text \<open>
  A value caught by \<open>catch (error)\<close>: an instance of \<open>Error\<close> with its message, or any
  other value. The exceptions the service itself raises are instances of \<open>Error\<close>:
  \<open>new Error(msg)\<close>, or a \<open>TypeError\<close> of the engine.
\<close>

datatype thrown = ErrorObject ustring | NonError jsval

datatype js_error = Error ustring | TypeError ustring

fun message :: "js_error \<Rightarrow> ustring" where
  "message (Error m) = m"
| "message (TypeError m) = m"


section \<open>The response classifier\<close>

text \<open>
  The part of the SDK's \<open>GenerateContentResponse\<close> the source reads. An absent optional
  field is \<open>None\<close>. \<open>response_text\<close> is \<open>response.text\<close>, the SDK's accessor for the textual reply.
\<close>

record Blob =
  mimeType :: "ustring option"
  data :: "ustring option"

record Part =
  inlineData :: "Blob option"

record Content =
  parts :: "Part list option"

record Candidate =
  content :: "Content option"

record GenerateContentResponse =
  candidates :: "Candidate list option"
  response_text :: "ustring option"

text \<open>A template literal prints an absent value as \<open>undefined\<close>.\<close>

definition interpolate :: "ustring option \<Rightarrow> ustring" where
  "interpolate v = (case v of Some s \<Rightarrow> s | None \<Rightarrow> asc ''undefined'')"

text \<open>\<open>response.candidates?.[0]?.content?.parts?.find(part => part.inlineData)\<close>\<close>

definition imagePartFromResponse :: "GenerateContentResponse \<Rightarrow> Part option" where
  "imagePartFromResponse response =
     (case candidates response of
        None \<Rightarrow> None
      | Some [] \<Rightarrow> None
      | Some (c # cs) \<Rightarrow>
          (case content c of
             None \<Rightarrow> None
           | Some ct \<Rightarrow>
               (case parts ct of
                  None \<Rightarrow> None
                | Some ps \<Rightarrow> find (\<lambda>part. inlineData part \<noteq> None) ps)))"

definition noImageText :: ustring where
  "noImageText = asc ''Yapay zeka bir resim yerine metinle yan'' @ [305] @ asc ''t verdi''"

definition noTextPlaceholder :: ustring where
  "noTextPlaceholder = asc ''Metin yan'' @ [305] @ asc ''t'' @ [305] @ asc '' al''
     @ [305] @ asc ''namad'' @ [305] @ asc ''.''"

definition processGeminiResponse :: "GenerateContentResponse \<Rightarrow> js_error + ustring" where
  "processGeminiResponse response =
     (case (case imagePartFromResponse response of
              Some p \<Rightarrow> inlineData p
            | None \<Rightarrow> None) of
        Some b \<Rightarrow>
          Inr (asc ''data:'' @ interpolate (mimeType b) @ asc '';base64,''
               @ interpolate (data b))
      | None \<Rightarrow>
          (let textResponse = response_text response in
           Inl (Error (noImageText @ asc '': '' @ [34]
             @ (case textResponse of
                  None \<Rightarrow> noTextPlaceholder
                | Some t \<Rightarrow> if t = [] then noTextPlaceholder else t)
             @ [34]))))"


section \<open>The error normalizer\<close>

definition quotaMessage :: ustring where
  "quotaMessage = asc ''Bug'' @ [252] @ asc ''nk'' @ [252] @ asc '' limitimiz doldu. L''
     @ [252] @ asc ''tfen yar'' @ [305] @ asc ''n tekrar deneyiniz.''"

text \<open>
  \<open>parseApiError\<close> returns whatever value its last expression yields: the source
  declares the result a string, and \<open>JSON.parse\<close> is untyped, so the value is kept as a
  \<open>jsval\<close>. \<open>JSON.parse\<close> converts its argument to a string first.
\<close>

definition errorMessage_of :: "platform \<Rightarrow> thrown \<Rightarrow> jsval" where
  "errorMessage_of pf error =
     (case error of
        ErrorObject m \<Rightarrow> JStr m
      | NonError v \<Rightarrow>
          (case JSON_stringify pf v of Some s \<Rightarrow> JStr s | None \<Rightarrow> JUndefined))"

definition parseApiError :: "platform \<Rightarrow> thrown \<Rightarrow> jsval" where
  "parseApiError pf error =
     (let errorMessage = errorMessage_of pf error in
      case JSON_parse pf (to_string pf errorMessage) of
        None \<Rightarrow> errorMessage
      | Some errorData \<Rightarrow>
          if get_prop (get_prop errorData (asc ''error'')) (asc ''status'')
               = JStr (asc ''RESOURCE_EXHAUSTED'')
             \<or> get_prop (get_prop errorData (asc ''error'')) (asc ''code'') = JNum 429
          then JStr quotaMessage
          else (let m = get_prop (get_prop errorData (asc ''error'')) (asc ''message'')
                in if truthy m then m else errorMessage))"


section \<open>The retrying call wrapper\<close>

text \<open>
  One request to the backend: the image part (media type and data) and the text part.
  The backend is a parameter: from its own state and a request it gives the value it
  throws or the response it returns, and its next state. Every call is taken to settle.
  \<open>io\<close> threads that state and records, in order, every request issued with what came
  back, and every delay waited, in milliseconds.
\<close>

record request =
  imagePart :: "ustring \<times> ustring"
  textPart :: ustring

type_synonym 'b backend = "'b \<Rightarrow> request \<Rightarrow> (thrown + GenerateContentResponse) \<times> 'b"

record 'b io =
  backend_state :: 'b
  trace :: "(request \<times> (thrown + GenerateContentResponse)) list"
  delays :: "nat list"

definition calls :: "'b io \<Rightarrow> request list" where
  "calls st = map fst (trace st)"

definition maxRetries :: nat where
  "maxRetries = 3"

definition initialDelay :: nat where
  "initialDelay = 1000"

definition exhaustedMessage :: ustring where
  "exhaustedMessage = asc ''API '' @ [231] @ asc ''a'' @ [287] @ asc ''r'' @ [305] @ asc ''s''
     @ [305] @ asc '' t'' @ [252] @ asc ''m denemelere ra'' @ [287] @ asc ''men ba''
     @ [351] @ asc ''ar'' @ [305] @ asc ''s'' @ [305] @ asc ''z oldu.''"

text \<open>
  \<open>parsedError.includes(sub)\<close>: the substring test on a string, the membership test on
  an array, and a \<open>TypeError\<close> (\<open>None\<close>) on every other value.
\<close>

fun js_includes :: "jsval \<Rightarrow> ustring \<Rightarrow> bool option" where
  "js_includes (JStr s) sub = Some (str_includes s sub)"
| "js_includes (JArr xs) sub = Some (JStr sub \<in> set xs)"
| "js_includes v sub = None"

definition isInternalError :: "jsval \<Rightarrow> bool option" where
  "isInternalError parsedError =
     (case js_includes parsedError ([34] @ asc ''code'' @ [34] @ asc '':500'') of
        None \<Rightarrow> None
      | Some True \<Rightarrow> Some True
      | Some False \<Rightarrow> js_includes parsedError (asc ''INTERNAL''))"

function callGeminiWithRetry_from ::
  "platform \<Rightarrow> 'b backend \<Rightarrow> request \<Rightarrow> nat \<Rightarrow> 'b io
     \<Rightarrow> (js_error + GenerateContentResponse) \<times> 'b io" where
  "callGeminiWithRetry_from pf generateContent req attempt st =
     (if attempt \<le> maxRetries then
        (case generateContent (backend_state st) req of
           (r, b) \<Rightarrow>
             (let st1 = st\<lparr>backend_state := b, trace := trace st @ [(req, r)]\<rparr> in
              case r of
                Inr response \<Rightarrow> (Inr response, st1)
              | Inl error \<Rightarrow>
                  (let parsedError = parseApiError pf error in
                   case isInternalError parsedError of
                     None \<Rightarrow> (Inl (TypeError (includes_TypeError pf parsedError)), st1)
                   | Some internal \<Rightarrow>
                       if internal \<and> attempt < maxRetries
                       then callGeminiWithRetry_from pf generateContent req (attempt + 1)
                              (st1\<lparr>delays := delays st1
                                     @ [initialDelay * 2 ^ (attempt - 1)]\<rparr>)
                       else (Inl (Error (to_string pf parsedError)), st1))))
      else (Inl (Error exhaustedMessage), st))"
  by pat_completeness auto
termination
  by (relation "measure (\<lambda>(pf, g, req, attempt, st). Suc maxRetries - attempt)") auto

declare callGeminiWithRetry_from.simps [simp del]

definition callGeminiWithRetry ::
  "platform \<Rightarrow> 'b backend \<Rightarrow> request \<Rightarrow> 'b io
     \<Rightarrow> (js_error + GenerateContentResponse) \<times> 'b io" where
  "callGeminiWithRetry pf generateContent req st =
     callGeminiWithRetry_from pf generateContent req 1 st"


section \<open>The fallback orchestrator\<close>

text \<open>
  The match of \<^verbatim>\<open>^data:(image\/\w+);base64,(.*)$\<close>: after \<open>data:image/\<close> the
  longest run of word characters, which must not be empty (no shorter run can be
  followed by \<open>;\<close>), then \<open>;base64,\<close>, then the rest of the input, which must hold no
  line terminator. The result is the two groups.
\<close>

definition match_data_url :: "ustring \<Rightarrow> (ustring \<times> ustring) option" where
  "match_data_url s =
     (if startsWith s (asc ''data:image/'') then
        (let r = drop 11 s; w = takeWhile is_word r; r2 = dropWhile is_word r in
         if w \<noteq> [] \<and> startsWith r2 (asc '';base64,'')
            \<and> list_all (\<lambda>c. \<not> is_line_terminator c) (drop 8 r2)
         then Some (asc ''image/'' @ w, drop 8 r2)
         else None)
      else None)"

definition invalidUrlMessage :: ustring where
  "invalidUrlMessage =
     asc ''Invalid image data URL format. Expected '' @ [39]
     @ asc ''data:image/...;base64,...'' @ [39]"

definition bothFailedText :: ustring where
  "bothFailedText = asc ''Yapay zeka hem orijinal hem de yedek komutla ba'' @ [351]
     @ asc ''ar'' @ [305] @ asc ''s'' @ [305] @ asc ''z oldu. Son hata: ''"

text \<open>The body of each \<open>try\<close>: the wrapped call, then the classifier.\<close>

definition attempt_with ::
  "platform \<Rightarrow> 'b backend \<Rightarrow> ustring \<times> ustring \<Rightarrow> ustring \<Rightarrow> 'b io
     \<Rightarrow> (js_error + ustring) \<times> 'b io" where
  "attempt_with pf generateContent img prompt st =
     (case callGeminiWithRetry pf generateContent
             \<lparr>imagePart = img, textPart = prompt\<rparr> st of
        (Inl e, st1) \<Rightarrow> (Inl e, st1)
      | (Inr response, st1) \<Rightarrow> (processGeminiResponse response, st1))"

definition generateDecadeImage ::
  "platform \<Rightarrow> 'b backend \<Rightarrow> ustring \<Rightarrow> ustring \<Rightarrow> 'b io
     \<Rightarrow> (js_error + ustring) \<times> 'b io" where
  "generateDecadeImage pf generateContent imageDataUrl prompt st =
     (case match_data_url imageDataUrl of
        None \<Rightarrow> (Inl (Error invalidUrlMessage), st)
      | Some img \<Rightarrow>
          (case attempt_with pf generateContent img prompt st of
             (Inr url, st1) \<Rightarrow> (Inr url, st1)
           | (Inl error, st1) \<Rightarrow>
               (let errorMessage = message error;
                    isNoImageError = str_includes errorMessage noImageText in
                if isNoImageError then
                  (case extractDecade prompt of
                     None \<Rightarrow> (Inl error, st1)
                   | Some decade \<Rightarrow>
                       if decade = [] then (Inl error, st1)
                       else
                         (case attempt_with pf generateContent img
                                 (getFallbackPrompt decade) st1 of
                            (Inr url, st2) \<Rightarrow> (Inr url, st2)
                          | (Inl fallbackError, st2) \<Rightarrow>
                              (Inl (Error (bothFailedText @ message fallbackError)), st2)))
                else (Inl (Error errorMessage), st1))))"


section \<open>The batch scheduler (App.tsx)\<close>

datatype ImageStatus = status_pending | status_done | status_error

record GeneratedImage =
  status :: ImageStatus
  url :: "ustring option"
  error_msg :: "ustring option"

text \<open>
  The component state the scheduler reads and writes. A \<open>string | null\<close> is an option;
  \<open>present\<close> is its truthiness (\<open>null\<close> and the empty string are falsy).
\<close>

record app =
  uploadedImage :: "ustring option"
  generatedImages :: "ustring \<rightharpoonup> GeneratedImage"
  generationStyle :: GenerationStyle
  fatalError :: "ustring option"

definition present :: "ustring option \<Rightarrow> bool" where
  "present v = (case v of None \<Rightarrow> False | Some s \<Rightarrow> s \<noteq> [])"

definition concurrencyLimit :: nat where
  "concurrencyLimit = 2"

definition initialImages :: "ustring \<rightharpoonup> GeneratedImage" where
  "initialImages =
     fold (\<lambda>decade m. m(decade \<mapsto> \<lparr>status = status_pending, url = None, error_msg = None\<rparr>))
       DECADES Map.empty"

text \<open>
  The quota test of both \<open>catch\<close> blocks, and what the two branches of
  \<open>processDecade\<close> (and of \<open>handleRegenerateDecade\<close>, which has the same branches) write
  once \<open>generateDecadeImage\<close> has settled with the result \<open>r\<close>.
\<close>

definition is_quota_message :: "ustring \<Rightarrow> bool" where
  "is_quota_message errorMessage =
     (str_includes (toLowerCase errorMessage) (asc ''kota'')
      \<or> str_includes (toLowerCase errorMessage) (asc ''limit''))"

definition record_result :: "ustring \<Rightarrow> js_error + ustring \<Rightarrow> app \<Rightarrow> app" where
  "record_result decade r a =
     (case r of
        Inr resultUrl \<Rightarrow>
          a\<lparr>generatedImages := (generatedImages a)
               (decade \<mapsto> \<lparr>status = status_done, url = Some resultUrl, error_msg = None\<rparr>)\<rparr>
      | Inl err \<Rightarrow>
          (let errorMessage = message err;
               a1 = (if is_quota_message errorMessage
                     then a\<lparr>fatalError := Some errorMessage\<rparr> else a)
           in a1\<lparr>generatedImages := (generatedImages a1)
                (decade \<mapsto> \<lparr>status = status_error, url = None,
                              error_msg = Some errorMessage\<rparr>)\<rparr>))"


text \<open>
  \<open>handleRegenerateDecade\<close>. \<open>regenerate_begin\<close> is its part before the \<open>await\<close>:
  \<open>None\<close> when one of the three guards returns, otherwise the state with the job set to
  \<open>pending\<close>.
\<close>

definition regenerate_begin :: "ustring \<Rightarrow> app \<Rightarrow> app option" where
  "regenerate_begin decade a =
     (if \<not> present (uploadedImage a) then None
      else if present (fatalError a) then None
      else if (case generatedImages a decade of
                 Some img \<Rightarrow> status img = status_pending
               | None \<Rightarrow> False) then None
      else Some (a\<lparr>generatedImages := (generatedImages a)
                  (decade \<mapsto>
                     (case generatedImages a decade of
                        Some img \<Rightarrow> img\<lparr>status := status_pending\<rparr>
                      | None \<Rightarrow> \<lparr>status = status_pending, url = None,
                                  error_msg = None\<rparr>))\<rparr>))"

definition handleRegenerateDecade ::
  "platform \<Rightarrow> 'b backend \<Rightarrow> ustring \<Rightarrow> app \<times> 'b io \<Rightarrow> app \<times> 'b io" where
  "handleRegenerateDecade pf generateContent decade s =
     (case s of (a, st) \<Rightarrow>
        (case regenerate_begin decade a of
           None \<Rightarrow> (a, st)
         | Some a1 \<Rightarrow>
             (let prompt = getPromptForDecade (generationStyle a) decade in
              case generateDecadeImage pf generateContent
                     (case uploadedImage a of Some u \<Rightarrow> u | None \<Rightarrow> []) prompt st of
                (r, st1) \<Rightarrow> (record_result decade r a1, st1))))"

definition handleReset :: "app \<Rightarrow> app" where
  "handleReset a = a\<lparr>uploadedImage := None, generatedImages := Map.empty, fatalError := None\<rparr>"

text \<open>
  The initial batch of \<open>handleGenerateClick\<close>. The two workers run interleaved, so the
  batch is a transition system. A worker is at the head of its loop, or awaits
  \<open>processDecade\<close> for a decade, or has left its loop. The result \<open>r\<close> with which
  \<open>generateDecadeImage\<close> settles is arbitrary in the step \<open>settle\<close>: the steps cover
  every backend and every interleaving of the two workers' calls. The batch is taken on
  its own, with no regeneration or reset requested while it runs.
\<close>

datatype worker = AtLoopHead | Awaiting ustring | Exited

record batch =
  app_state :: app
  decadesQueue :: "ustring list"
  workers :: "worker list"

definition handleGenerateClick_begin :: "app \<Rightarrow> batch option" where
  "handleGenerateClick_begin a =
     (if \<not> present (uploadedImage a) then None
      else Some \<lparr>app_state = a\<lparr>generatedImages := initialImages\<rparr>,
                 decadesQueue = DECADES,
                 workers = replicate concurrencyLimit AtLoopHead\<rparr>)"

inductive step :: "batch \<Rightarrow> batch \<Rightarrow> bool" where
  shift:
    "i < length (workers b) \<Longrightarrow> workers b ! i = AtLoopHead
     \<Longrightarrow> decadesQueue b = decade # q \<Longrightarrow> decade \<noteq> []
     \<Longrightarrow> step b (b\<lparr>decadesQueue := q, workers := (workers b)[i := Awaiting decade]\<rparr>)"
| shift_empty:
    "i < length (workers b) \<Longrightarrow> workers b ! i = AtLoopHead
     \<Longrightarrow> decadesQueue b = [] # q
     \<Longrightarrow> step b (b\<lparr>decadesQueue := q\<rparr>)"
| settle:
    "i < length (workers b) \<Longrightarrow> workers b ! i = Awaiting decade
     \<Longrightarrow> step b (b\<lparr>app_state := record_result decade r (app_state b),
                    workers := (workers b)[i := AtLoopHead]\<rparr>)"
| leave:
    "i < length (workers b) \<Longrightarrow> workers b ! i = AtLoopHead
     \<Longrightarrow> decadesQueue b = []
     \<Longrightarrow> step b (b\<lparr>workers := (workers b)[i := Exited]\<rparr>)"

text \<open>\<open>Promise.all(workers)\<close> resolves when every worker has left its loop.\<close>

definition resolved :: "batch \<Rightarrow> bool" where
  "resolved b = list_all (\<lambda>w. w = Exited) (workers b)"

definition settled :: "GeneratedImage option \<Rightarrow> bool" where
  "settled e =
     (case e of
        None \<Rightarrow> False
      | Some img \<Rightarrow>
          (status img = status_done \<and> url img \<noteq> None)
          \<or> (status img = status_error \<and> error_msg img \<noteq> None))"



section \<open>The batch at the level of backend calls\<close>

text \<open>
  To count the backend calls that are outstanding, \<open>generateDecadeImage\<close> is written
  as a resumption: a job runs up to its next \<open>await\<close> and is resumed when that settles.
  A job awaits either a backend call (\<open>Calling\<close>: the stage, the attempt number of the
  wrapper's loop, the request, and the primary prompt) or a backoff delay (\<open>Sleeping\<close>:
  the stage, the number of the attempt to come, the request, the primary prompt and the
  delay in milliseconds). \<open>job_next\<close> is what a job does when resumed: it awaits
  again, or \<open>generateDecadeImage\<close> settles with a result.
\<close>

datatype stage = Primary | Fallback

datatype job_state =
    Calling stage nat request ustring
  | Sleeping stage nat request ustring nat

datatype job_next = Continue job_state | Finished "js_error + ustring"

text \<open>
  The start of \<open>generateDecadeImage\<close>: the check of the data URL, then the first call
  of the wrapper for the primary prompt.
\<close>

definition generateDecadeImage_start :: "ustring \<Rightarrow> ustring \<Rightarrow> job_next" where
  "generateDecadeImage_start imageDataUrl prompt =
     (case match_data_url imageDataUrl of
        None \<Rightarrow> Finished (Inl (Error invalidUrlMessage))
      | Some img \<Rightarrow> Continue (Calling Primary 1 \<lparr>imagePart = img, textPart = prompt\<rparr> prompt))"

text \<open>
  What follows the body of a \<open>try\<close> once it has returned or thrown (\<open>r\<close>): in the first
  attempt the \<open>catch\<close> block that may start the fallback attempt, in the fallback
  attempt the \<open>catch\<close> block that wraps the error.
\<close>

definition attempt_settled :: "stage \<Rightarrow> request \<Rightarrow> ustring \<Rightarrow> js_error + ustring \<Rightarrow> job_next" where
  "attempt_settled stg req prompt r =
     (case stg of
        Primary \<Rightarrow>
          (case r of
             Inr resultUrl \<Rightarrow> Finished (Inr resultUrl)
           | Inl error \<Rightarrow>
               (let errorMessage = message error;
                    isNoImageError = str_includes errorMessage noImageText in
                if isNoImageError then
                  (case extractDecade prompt of
                     None \<Rightarrow> Finished (Inl error)
                   | Some decade \<Rightarrow>
                       if decade = [] then Finished (Inl error)
                       else Continue (Calling Fallback 1
                              \<lparr>imagePart = imagePart req,
                               textPart = getFallbackPrompt decade\<rparr> prompt))
                else Finished (Inl (Error errorMessage))))
      | Fallback \<Rightarrow>
          (case r of
             Inr resultUrl \<Rightarrow> Finished (Inr resultUrl)
           | Inl fallbackError \<Rightarrow>
               Finished (Inl (Error (bothFailedText @ message fallbackError)))))"

text \<open>
  A backend call of the wrapper's loop has settled with \<open>out\<close>: the wrapper returns the
  response, and the classifier runs; or it waits and retries; or it throws.
\<close>

definition call_settled ::
  "platform \<Rightarrow> stage \<Rightarrow> nat \<Rightarrow> request \<Rightarrow> ustring
     \<Rightarrow> thrown + GenerateContentResponse \<Rightarrow> job_next" where
  "call_settled pf stg attempt req prompt out =
     (case out of
        Inr response \<Rightarrow> attempt_settled stg req prompt (processGeminiResponse response)
      | Inl error \<Rightarrow>
          (let parsedError = parseApiError pf error in
           case isInternalError parsedError of
             None \<Rightarrow>
               attempt_settled stg req prompt
                 (Inl (TypeError (includes_TypeError pf parsedError)))
           | Some internal \<Rightarrow>
               if internal \<and> attempt < maxRetries
               then Continue (Sleeping stg (attempt + 1) req prompt
                                (initialDelay * 2 ^ (attempt - 1)))
               else attempt_settled stg req prompt
                      (Inl (Error (to_string pf parsedError)))))"

text \<open>
  The batch, with the calls that are outstanding at the backend: each with the index of
  the worker whose job awaits it. A worker is at the head of its loop, or runs the job
  of a decade, or has left its loop.
\<close>

datatype call_worker = LoopHead | Running ustring job_state | LoopLeft

record call_batch =
  cb_app :: app
  cb_queue :: "ustring list"
  cb_workers :: "call_worker list"
  outstanding :: "(nat \<times> request) list"

text \<open>
  Worker \<open>i\<close> goes on with the job of \<open>decade\<close>: it issues the next call and awaits it,
  or it sleeps, or \<open>generateDecadeImage\<close> has settled, \<open>processDecade\<close> writes the result
  and the worker is back at the head of its loop.
\<close>

definition proceed :: "nat \<Rightarrow> ustring \<Rightarrow> job_next \<Rightarrow> call_batch \<Rightarrow> call_batch" where
  "proceed i decade nx b =
     (case nx of
        Finished r \<Rightarrow>
          b\<lparr>cb_app := record_result decade r (cb_app b),
            cb_workers := (cb_workers b)[i := LoopHead]\<rparr>
      | Continue js \<Rightarrow>
          (case js of
             Calling stg attempt req prompt \<Rightarrow>
               b\<lparr>cb_workers := (cb_workers b)[i := Running decade js],
                 outstanding := outstanding b @ [(i, req)]\<rparr>
           | Sleeping stg attempt req prompt delay \<Rightarrow>
               b\<lparr>cb_workers := (cb_workers b)[i := Running decade js]\<rparr>))"

definition handleGenerateClick_calls_begin :: "app \<Rightarrow> call_batch option" where
  "handleGenerateClick_calls_begin a =
     (if \<not> present (uploadedImage a) then None
      else Some \<lparr>cb_app = a\<lparr>generatedImages := initialImages\<rparr>,
                 cb_queue = DECADES,
                 cb_workers = replicate concurrencyLimit LoopHead,
                 outstanding = []\<rparr>)"

text \<open>
  The steps. A worker at the head of its loop takes the next decade and starts its job,
  or drops an empty label, or leaves when the queue is empty. The backend settles one
  of the outstanding calls, with any outcome, and the job that awaits it is resumed. A
  delay ends and the job issues its next call. As before the batch is taken on its own.
\<close>

inductive call_step :: "platform \<Rightarrow> call_batch \<Rightarrow> call_batch \<Rightarrow> bool" where
  start:
    "i < length (cb_workers b) \<Longrightarrow> cb_workers b ! i = LoopHead
     \<Longrightarrow> cb_queue b = decade # q \<Longrightarrow> decade \<noteq> []
     \<Longrightarrow> call_step pf b
           (proceed i decade
              (generateDecadeImage_start
                 (case uploadedImage (cb_app b) of Some u \<Rightarrow> u | None \<Rightarrow> [])
                 (getPromptForDecade (generationStyle (cb_app b)) decade))
              (b\<lparr>cb_queue := q\<rparr>))"
| drop_empty:
    "i < length (cb_workers b) \<Longrightarrow> cb_workers b ! i = LoopHead
     \<Longrightarrow> cb_queue b = [] # q
     \<Longrightarrow> call_step pf b (b\<lparr>cb_queue := q\<rparr>)"
| call_settles:
    "i < length (cb_workers b)
     \<Longrightarrow> cb_workers b ! i = Running decade (Calling stg attempt req prompt)
     \<Longrightarrow> (i, req) \<in> set (outstanding b)
     \<Longrightarrow> call_step pf b
           (proceed i decade (call_settled pf stg attempt req prompt out)
              (b\<lparr>outstanding := remove1 (i, req) (outstanding b)\<rparr>))"
| delay_ends:
    "i < length (cb_workers b)
     \<Longrightarrow> cb_workers b ! i = Running decade (Sleeping stg attempt req prompt delay)
     \<Longrightarrow> call_step pf b
           (proceed i decade (Continue (Calling stg attempt req prompt)) b)"
| leave_loop:
    "i < length (cb_workers b) \<Longrightarrow> cb_workers b ! i = LoopHead
     \<Longrightarrow> cb_queue b = []
     \<Longrightarrow> call_step pf b (b\<lparr>cb_workers := (cb_workers b)[i := LoopLeft]\<rparr>)"

text \<open>
  What holds of every state: there are as many workers as the concurrency limit, no two
  outstanding calls belong to one worker, and each outstanding call is the one its
  worker's job awaits.
\<close>

definition call_inv :: "call_batch \<Rightarrow> bool" where
  "call_inv b =
     (length (cb_workers b) = concurrencyLimit
      \<and> distinct (map fst (outstanding b))
      \<and> (\<forall>c \<in> set (outstanding b).
            fst c < length (cb_workers b)
            \<and> (\<exists>decade stg attempt prompt.
                  cb_workers b ! fst c = Running decade (Calling stg attempt (snd c) prompt))))"


section \<open>Auxiliary notions and sample inputs\<close>

text \<open>The content parts the classifier scans: those of the first candidate.\<close>

definition first_parts :: "GenerateContentResponse \<Rightarrow> Part list" where
  "first_parts response =
     (case candidates response of
        None \<Rightarrow> []
      | Some [] \<Rightarrow> []
      | Some (c # cs) \<Rightarrow>
          (case content c of
             None \<Rightarrow> []
           | Some ct \<Rightarrow> (case parts ct of None \<Rightarrow> [] | Some ps \<Rightarrow> ps)))"

text \<open>\<open>errorData?.error?.k\<close>\<close>

definition error_field :: "jsval \<Rightarrow> ustring \<Rightarrow> jsval" where
  "error_field errorData k = get_prop (get_prop errorData (asc ''error'')) k"


text \<open>
  Three JSON texts,
  \<^verbatim>\<open>{"error":{"message":5}}\<close>, \<^verbatim>\<open>{"error":{"message":""}}\<close> and
  \<^verbatim>\<open>{"error":{"code":429}}\<close>, and a platform for concrete runs. Its \<open>JSON_parse\<close>
  decodes these three texts as \<open>JSON.parse\<close> does and rejects every other text; it is
  applied below to these texts and to texts that are not JSON only. Its
  \<open>JSON_stringify\<close> and \<open>ToString\<close> are those of the runtime on \<open>undefined\<close>, \<open>null\<close>
  and the booleans, and are not applied to other values below. The \<open>TypeError\<close>
  messages are those V8 gives.
\<close>

definition text_numeric_message :: ustring where
  "text_numeric_message = asc ''{'' @ [34] @ asc ''error'' @ [34] @ asc '':{'' @ [34]
     @ asc ''message'' @ [34] @ asc '':5}}''"

definition text_empty_message :: ustring where
  "text_empty_message = asc ''{'' @ [34] @ asc ''error'' @ [34] @ asc '':{'' @ [34]
     @ asc ''message'' @ [34] @ asc '':'' @ [34, 34] @ asc ''}}''"

definition text_code_429 :: ustring where
  "text_code_429 = asc ''{'' @ [34] @ asc ''error'' @ [34] @ asc '':{'' @ [34]
     @ asc ''code'' @ [34] @ asc '':429}}''"

definition sample_parse :: "ustring \<Rightarrow> jsval option" where
  "sample_parse s =
     (if s = text_numeric_message
      then Some (JObj [(asc ''error'', JObj [(asc ''message'', JNum 5)])])
      else if s = text_empty_message
      then Some (JObj [(asc ''error'', JObj [(asc ''message'', JStr [])])])
      else if s = text_code_429
      then Some (JObj [(asc ''error'', JObj [(asc ''code'', JNum 429)])])
      else None)"

fun sample_stringify :: "jsval \<Rightarrow> ustring option" where
  "sample_stringify JNull = Some (asc ''null'')"
| "sample_stringify (JBool b) = Some (if b then asc ''true'' else asc ''false'')"
| "sample_stringify v = None"

fun sample_ToString :: "jsval \<Rightarrow> ustring" where
  "sample_ToString JNull = asc ''null''"
| "sample_ToString (JBool b) = (if b then asc ''true'' else asc ''false'')"
| "sample_ToString v = asc ''undefined''"

fun sample_includes_TypeError :: "jsval \<Rightarrow> ustring" where
  "sample_includes_TypeError JUndefined =
     asc ''Cannot read properties of undefined (reading '' @ [39] @ asc ''includes'' @ [39]
     @ asc '')''"
| "sample_includes_TypeError JNull =
     asc ''Cannot read properties of null (reading '' @ [39] @ asc ''includes'' @ [39]
     @ asc '')''"
| "sample_includes_TypeError v = asc ''parsedError.includes is not a function''"

definition sample_platform :: platform where
  "sample_platform =
     \<lparr>JSON_parse = sample_parse,
      JSON_stringify = sample_stringify,
      ToString = sample_ToString,
      includes_TypeError = sample_includes_TypeError\<rparr>"

text \<open>
  A scripted backend: its state is the list of outcomes still to come, one per call;
  once the script is used up it throws an error whose message is \<open>end of script\<close>.
\<close>

definition scripted :: "(thrown + GenerateContentResponse) list backend" where
  "scripted outs req =
     (case outs of
        [] \<Rightarrow> (Inl (ErrorObject (asc ''end of script'')), [])
      | out # rest \<Rightarrow> (out, rest))"

definition start_io :: "'b \<Rightarrow> 'b io" where
  "start_io b = \<lparr>backend_state = b, trace = [], delays = []\<rparr>"

definition text_only :: "ustring \<Rightarrow> GenerateContentResponse" where
  "text_only t = \<lparr>candidates = None, response_text = Some t\<rparr>"

definition image_reply :: "ustring \<Rightarrow> ustring \<Rightarrow> GenerateContentResponse" where
  "image_reply m d =
     \<lparr>candidates = Some [\<lparr>content = Some \<lparr>parts = Some
        [\<lparr>inlineData = None\<rparr>,
         \<lparr>inlineData = Some \<lparr>mimeType = Some m, data = Some d\<rparr>\<rparr>]\<rparr>\<rparr>],
      response_text = None\<rparr>"

definition sample_url :: ustring where
  "sample_url = asc ''data:image/png;base64,AAAA''"

definition sample_app :: app where
  "sample_app =
     \<lparr>uploadedImage = Some sample_url,
      generatedImages = initialImages,
      generationStyle = strict,
      fatalError = None\<rparr>"

text \<open>A backend that answers every request with the same text-only reply.\<close>

definition always_text_only :: "unit backend" where
  "always_text_only b req = (Inr (text_only (asc ''no'')), b)"

definition sample_request :: request where
  "sample_request = \<lparr>imagePart = (asc ''image/png'', asc ''AAAA''), textPart = asc ''1950 ler''\<rparr>"

text \<open>
  What holds of every state of the batch: there are as many workers as the concurrency
  limit; once a worker has left its loop the queue is empty; and every decade is still
  queued, or awaited by a worker, or settled.
\<close>

definition batch_inv :: "batch \<Rightarrow> bool" where
  "batch_inv b =
     (length (workers b) = concurrencyLimit
      \<and> (Exited \<in> set (workers b) \<longrightarrow> decadesQueue b = [])
      \<and> (\<forall>d \<in> set DECADES.
            d \<in> set (decadesQueue b) \<or> Awaiting d \<in> set (workers b)
            \<or> settled (generatedImages (app_state b) d)))"

text \<open>A bound on the number of steps the batch can still take.\<close>

definition batch_measure :: "batch \<Rightarrow> nat" where
  "batch_measure b =
     2 * length (decadesQueue b) + length (filter (\<lambda>w. w \<noteq> Exited) (workers b))
     + length (filter (\<lambda>w. w \<noteq> AtLoopHead \<and> w \<noteq> Exited) (workers b))"

text \<open>
  A complete run of the batch for \<open>sample_app\<close>, in which the job of \<open>1960 lar\<close> fails
  and every other job succeeds.
\<close>

definition sample_outcome :: "ustring \<Rightarrow> js_error + ustring" where
  "sample_outcome d =
     (if d = asc ''1960 lar'' then Inl (Error (noImageText @ asc '': '' @ [34] @ asc ''no'' @ [34]))
      else Inr sample_url)"

definition sample_batch_end :: batch where
  "sample_batch_end =
     \<lparr>app_state = fold (\<lambda>d a. record_result d (sample_outcome d) a) DECADES
                    (sample_app\<lparr>generatedImages := initialImages\<rparr>),
      decadesQueue = [],
      workers = [Exited, Exited]\<rparr>"

text \<open>A state after the batch in which the job of \<open>1950 ler\<close> is done.\<close>

definition sample_done_app :: app where
  "sample_done_app =
     sample_app\<lparr>generatedImages := initialImages
        (asc ''1950 ler'' \<mapsto> \<lparr>status = status_done, url = Some sample_url, error_msg = None\<rparr>)\<rparr>"

definition sample_batch_begin :: batch where
  "sample_batch_begin =
     \<lparr>app_state = sample_app\<lparr>generatedImages := initialImages\<rparr>,
      decadesQueue = DECADES,
      workers = replicate concurrencyLimit AtLoopHead\<rparr>"

text \<open>
  The state of the batch for \<open>sample_app\<close> after both workers have started a job: the
  calls for the first two decades are outstanding.
\<close>

definition sample_two_calls :: call_batch where
  "sample_two_calls =
     \<lparr>cb_app = sample_app\<lparr>generatedImages := initialImages\<rparr>,
      cb_queue = [asc ''1970 ler'', asc ''1980 ler'', asc ''1990 lar'', asc ''2000 ler''],
      cb_workers =
        [Running (asc ''1950 ler'')
           (Calling Primary 1
              \<lparr>imagePart = (asc ''image/png'', asc ''AAAA''),
               textPart = getPromptForDecade strict (asc ''1950 ler'')\<rparr>
              (getPromptForDecade strict (asc ''1950 ler''))),
         Running (asc ''1960 lar'')
           (Calling Primary 1
              \<lparr>imagePart = (asc ''image/png'', asc ''AAAA''),
               textPart = getPromptForDecade strict (asc ''1960 lar'')\<rparr>
              (getPromptForDecade strict (asc ''1960 lar'')))],
      outstanding =
        [(0, \<lparr>imagePart = (asc ''image/png'', asc ''AAAA''),
              textPart = getPromptForDecade strict (asc ''1950 ler'')\<rparr>),
         (1, \<lparr>imagePart = (asc ''image/png'', asc ''AAAA''),
              textPart = getPromptForDecade strict (asc ''1960 lar'')\<rparr>)]\<rparr>"

definition sample_calls_begin :: call_batch where
  "sample_calls_begin =
     \<lparr>cb_app = sample_app\<lparr>generatedImages := initialImages\<rparr>,
      cb_queue = DECADES,
      cb_workers = replicate concurrencyLimit LoopHead,
      outstanding = []\<rparr>"

text \<open>
  A job run on its own against a backend, one resumption after the other. It is
  \<open>generateDecadeImage\<close> again (\<open>generateDecadeImage_as_job\<close> below).
\<close>

definition job_size :: "job_state \<Rightarrow> nat" where
  "job_size js =
     (case js of
        Calling stg attempt req prompt \<Rightarrow>
          (case stg of Primary \<Rightarrow> 10 | Fallback \<Rightarrow> 0) + 2 * (maxRetries - attempt)
      | Sleeping stg attempt req prompt delay \<Rightarrow>
          (case stg of Primary \<Rightarrow> 10 | Fallback \<Rightarrow> 0) + 2 * (maxRetries - attempt) + 1)"

function run_job ::
  "platform \<Rightarrow> 'b backend \<Rightarrow> job_state \<Rightarrow> 'b io \<Rightarrow> (js_error + ustring) \<times> 'b io" where
  "run_job pf generateContent (Calling stg attempt req prompt) st =
     (case generateContent (backend_state st) req of
        (out, b) \<Rightarrow>
          (case call_settled pf stg attempt req prompt out of
             Finished r \<Rightarrow>
               (r, st\<lparr>backend_state := b, trace := trace st @ [(req, out)]\<rparr>)
           | Continue js \<Rightarrow>
               run_job pf generateContent js
                 (st\<lparr>backend_state := b, trace := trace st @ [(req, out)]\<rparr>)))"
| "run_job pf generateContent (Sleeping stg attempt req prompt delay) st =
     run_job pf generateContent (Calling stg attempt req prompt)
       (st\<lparr>delays := delays st @ [delay]\<rparr>)"
  by pat_completeness auto
termination
  by (relation "measure (\<lambda>(pf, g, js, st). job_size js)")
     (auto simp add: job_size_def call_settled_def attempt_settled_def Let_def maxRetries_def
        split: sum.splits option.splits if_splits stage.splits)

declare run_job.simps [simp del]


section \<open>Era tokens in the primary prompts\<close>

lemma decade_here_skip: "x \<noteq> 49 \<Longrightarrow> x \<noteq> 50 \<Longrightarrow> decade_here (x # xs) = None"
  by (cases "(x # xs)" rule: decade_here.cases) auto

lemma extractDecade_skip: "no_start pre \<Longrightarrow> extractDecade (pre @ s) = extractDecade s"
  by (induction pre) (simp_all add: no_start_def decade_here_skip)

lemma extractDecade_none: "no_start s \<Longrightarrow> extractDecade s = None"
  using extractDecade_skip [of s "[]"] by simp

lemma lar_1960: "extractDecade (asc ''1960 lar'' @ rest) = extractDecade rest"
  by (simp add: asc_def decade_here_skip)

lemma lar_1990: "extractDecade (asc ''1990 lar'' @ rest) = extractDecade rest"
  by (simp add: asc_def decade_here_skip)

lemma ler_hit: "d \<in> {asc ''1950 ler'', asc ''1970 ler'', asc ''1980 ler'', asc ''2000 ler''} \<Longrightarrow> extractDecade (d @ rest) = Some d"
  by (auto simp add: asc_def is_digit_def is_space_def)


lemma no_start_append: "no_start (a @ b) = (no_start a \<and> no_start b)"
  by (simp add: no_start_def)

lemma strict_pre: "no_start (asc ''Reimagine the person in this photo in the style of the '')"
  by (simp add: no_start_def asc_def)

lemma strict_post: "no_start (asc ''. It is crucial to maintain the person's core facial features and identity as closely as possible. This includes clothing, hairstyle, photo quality, and the overall aesthetic of that decade. The output must be a photorealistic image showing the person clearly.'')"
  by (simp add: no_start_def asc_def)

lemma creative_pre: "no_start (asc ''Take creative inspiration from the person in this photo to create a new portrait in the style of the '')"
  by (simp add: no_start_def asc_def)

lemma creative_post: "no_start (asc ''. The new image should reflect the fashion, hairstyles, and overall atmosphere of that era, with artistic freedom to reinterpret the person's appearance. The output must be a photorealistic image.'')"
  by (simp add: no_start_def asc_def)

lemma turkish_mid: "no_start (asc '' in Turkey, with a '' @ [34] @ asc ''Turkish style'' @ [34]
     @ asc ''. Incorporate authentic Turkish fashion, hairstyles, and aesthetics from that era. Think about Turkish Ye''
     @ [351] @ asc ''il'' @ [231] @ asc ''am movies, popular musicians like Bar'' @ [305, 351]
     @ asc '' Man'' @ [231] @ asc ''o or Ajda Pekkan, and everyday life in Turkey during the '')"
  by (simp add: no_start_def asc_def)

lemma turkish_post: "no_start (asc ''. Maintain the person's core facial features but place them convincingly into a Turkish context of the time. The output must be a photorealistic image showing the person clearly.'')"
  by (simp add: no_start_def asc_def)

lemma prompt_shape:
  "\<exists>pre post. no_start pre \<and> no_start post \<and>
     (getPromptForDecade s d = pre @ d @ post
      \<or> (\<exists>mid. no_start mid \<and> getPromptForDecade s d = pre @ d @ mid @ d @ post))"
proof (cases s)
  case strict
  then show ?thesis using strict_pre strict_post by (intro exI conjI disjI1; simp?) 
next
  case creative
  then show ?thesis using creative_pre creative_post by (intro exI conjI disjI1; simp?) 
next
  case turkish
  show ?thesis
    apply (rule exI [of _ "asc ''Reimagine the person in this photo in the style of the ''"])
    apply (rule exI [of _ "asc ''. Maintain the person's core facial features but place them convincingly into a Turkish context of the time. The output must be a photorealistic image showing the person clearly.''"])
    apply (intro conjI strict_pre turkish_post disjI2)
    apply (rule exI [of _ "asc '' in Turkey, with a '' @ [34] @ asc ''Turkish style'' @ [34]
     @ asc ''. Incorporate authentic Turkish fashion, hairstyles, and aesthetics from that era. Think about Turkish Ye''
     @ [351] @ asc ''il'' @ [231] @ asc ''am movies, popular musicians like Bar'' @ [305, 351]
     @ asc '' Man'' @ [231] @ asc ''o or Ajda Pekkan, and everyday life in Turkey during the ''"])
    apply (intro conjI turkish_mid)
    apply (simp add: turkish)
    done
qed

lemma lar_miss:
  assumes "d = asc ''1960 lar'' \<or> d = asc ''1990 lar''"
  shows "extractDecade (getPromptForDecade s d) = None"
proof -
  have skipd: "extractDecade (d @ r) = extractDecade r" for r
    using assms lar_1960 lar_1990 by auto
  from prompt_shape [of s d] obtain pre post where
    p: "no_start pre" "no_start post" and
    sh: "getPromptForDecade s d = pre @ d @ post
      \<or> (\<exists>mid. no_start mid \<and> getPromptForDecade s d = pre @ d @ mid @ d @ post)" by blast
  from sh show ?thesis
  proof
    assume "getPromptForDecade s d = pre @ d @ post"
    then show ?thesis using p by (simp add: extractDecade_skip skipd extractDecade_none)
  next
    assume "\<exists>mid. no_start mid \<and> getPromptForDecade s d = pre @ d @ mid @ d @ post"
    then obtain mid where "no_start mid" "getPromptForDecade s d = pre @ d @ mid @ d @ post" by blast
    then show ?thesis using p by (simp add: extractDecade_skip skipd extractDecade_none)
  qed
qed

lemma ler_found:
  assumes "d \<in> {asc ''1950 ler'', asc ''1970 ler'', asc ''1980 ler'', asc ''2000 ler''}"
  shows "extractDecade (getPromptForDecade s d) = Some d"
proof -
  from prompt_shape [of s d] obtain pre r where "no_start pre" "getPromptForDecade s d = pre @ d @ r"
    by auto
  then show ?thesis using ler_hit [OF assms] by (simp add: extractDecade_skip)
qed

text \<open>
  Claim C1. For every generation style and every decade label of \<open>DECADES\<close>,
  \<open>extractDecade\<close> applied to the primary prompt should return the decade label. The
  pattern of \<open>extractDecade\<close> ends in \<open>ler\<close> only: for the two labels that end in
  \<open>lar\<close>, \<open>1960 lar\<close> and \<open>1990 lar\<close>, it returns \<open>null\<close> in every style, so no
  fallback prompt can be built for them. (For the four labels that end in \<open>ler\<close> the
  label is returned: \<open>ler_found\<close> above.)
\<close>

theorem extractDecade_misses_lar_decades:
  "extractDecade (getPromptForDecade s (asc ''1960 lar'')) = None
   \<and> extractDecade (getPromptForDecade s (asc ''1990 lar'')) = None"
  by (simp add: lar_miss)


section \<open>The response classifier: what it returns\<close>

lemma imagePart_find:
  "imagePartFromResponse response = find (\<lambda>part. inlineData part \<noteq> None) (first_parts response)"
  by (simp add: imagePartFromResponse_def first_parts_def split: option.splits list.splits)

lemma find_first:
  "P p \<Longrightarrow> \<forall>q \<in> set ps1. \<not> P q \<Longrightarrow> find P (ps1 @ p # ps2) = Some p"
  by (induction ps1) auto

lemma find_none: "\<forall>q \<in> set ps. \<not> P q \<Longrightarrow> find P ps = None"
  by (induction ps) auto

lemma classifier_no_image:
  assumes "\<forall>q \<in> set (first_parts response). inlineData q = None"
  shows "processGeminiResponse response
          = Inl (Error (noImageText @ asc '': '' @ [34]
                 @ (if response_text response = None \<or> response_text response = Some []
                    then noTextPlaceholder else the (response_text response))
                 @ [34]))"
proof -
  from assms have "imagePartFromResponse response = None"
    using find_none [of "first_parts response" "\<lambda>part. inlineData part \<noteq> None"]
    by (simp add: imagePart_find)
  then show ?thesis
    by (auto simp add: processGeminiResponse_def split: option.splits)
qed

text \<open>
  Claim C7. The content parts of a response are those of its first candidate. When the
  first of them that carries inline data is \<open>p\<close>, with the payload \<open>b\<close>, the classifier
  returns the data URL built from the media type and the data of \<open>b\<close>
  (\<open>data:m;base64,d\<close> when both are present). When no part carries inline data it
  fails with the no-image error, whose message carries the textual reply of the
  response, or the placeholder when that reply is absent or empty.
\<close>

theorem processGeminiResponse_classifies:
  "(first_parts response = ps1 @ p # ps2 \<and> (\<forall>q \<in> set ps1. inlineData q = None)
      \<and> inlineData p = Some b
    \<longrightarrow> processGeminiResponse response
          = Inr (asc ''data:'' @ interpolate (mimeType b) @ asc '';base64,''
                 @ interpolate (data b)))
   \<and> (mimeType b = Some m \<and> data b = Some d
    \<longrightarrow> asc ''data:'' @ interpolate (mimeType b) @ asc '';base64,'' @ interpolate (data b)
          = asc ''data:'' @ m @ asc '';base64,'' @ d)
   \<and> ((\<forall>q \<in> set (first_parts response). inlineData q = None)
    \<longrightarrow> processGeminiResponse response
          = Inl (Error (noImageText @ asc '': '' @ [34]
                 @ (if response_text response = None \<or> response_text response = Some []
                    then noTextPlaceholder else the (response_text response))
                 @ [34])))"
proof (intro conjI impI)
  assume a: "first_parts response = ps1 @ p # ps2 \<and> (\<forall>q \<in> set ps1. inlineData q = None)
      \<and> inlineData p = Some b"
  then have "imagePartFromResponse response = Some p"
    using find_first [of "\<lambda>part. inlineData part \<noteq> None" p ps1 ps2]
    by (simp add: imagePart_find)
  with a show "processGeminiResponse response
          = Inr (asc ''data:'' @ interpolate (mimeType b) @ asc '';base64,''
                 @ interpolate (data b))"
    by (simp add: processGeminiResponse_def)
next
  assume "mimeType b = Some m \<and> data b = Some d"
  then show "asc ''data:'' @ interpolate (mimeType b) @ asc '';base64,'' @ interpolate (data b)
          = asc ''data:'' @ m @ asc '';base64,'' @ d"
    by (simp add: interpolate_def)
next
  assume "\<forall>q \<in> set (first_parts response). inlineData q = None"
  then have "imagePartFromResponse response = None"
    using find_none [of "first_parts response" "\<lambda>part. inlineData part \<noteq> None"]
    by (simp add: imagePart_find)
  then show "processGeminiResponse response
          = Inl (Error (noImageText @ asc '': '' @ [34]
                 @ (if response_text response = None \<or> response_text response = Some []
                    then noTextPlaceholder else the (response_text response))
                 @ [34]))"
    by (auto simp add: processGeminiResponse_def split: option.splits)
qed

theorem processGeminiResponse_classifies_witness:
  "processGeminiResponse (image_reply (asc ''image/png'') (asc ''AAAA''))
     = Inr (asc ''data:image/png;base64,AAAA'')
   \<and> processGeminiResponse (text_only (asc ''no''))
     = Inl (Error (noImageText @ asc '': '' @ [34] @ asc ''no'' @ [34]))
   \<and> processGeminiResponse (text_only [])
     = Inl (Error (noImageText @ asc '': '' @ [34] @ noTextPlaceholder @ [34]))"
  using processGeminiResponse_classifies
      [of "image_reply (asc ''image/png'') (asc ''AAAA'')" "[\<lparr>inlineData = None\<rparr>]"
          "\<lparr>inlineData = Some \<lparr>mimeType = Some (asc ''image/png''), data = Some (asc ''AAAA'')\<rparr>\<rparr>"
          "[]" "\<lparr>mimeType = Some (asc ''image/png''), data = Some (asc ''AAAA'')\<rparr>"
          "asc ''image/png''" "asc ''AAAA''"]
    processGeminiResponse_classifies [of "text_only (asc ''no'')" "[]" undefined "[]" undefined "[]" "[]"]
    processGeminiResponse_classifies [of "text_only []" "[]" undefined "[]" undefined "[]" "[]"]
  by (simp add: image_reply_def text_only_def first_parts_def interpolate_def asc_def)


section \<open>The image data URL\<close>

lemma startsWith_append: "startsWith s p \<Longrightarrow> s = p @ drop (length p) s"
  by (induction s p rule: startsWith.induct) auto

lemma match_data_url_shape:
  assumes "match_data_url s = Some (m, d)"
  shows "\<exists>sub. s = asc ''data:image/'' @ sub @ asc '';base64,'' @ d \<and> m = asc ''image/'' @ sub"
proof -
  let ?r = "drop 11 s"
  from assms have sw: "startsWith s (asc ''data:image/'')"
    by (simp add: match_data_url_def split: if_splits)
  with assms have
    sw2: "startsWith (dropWhile is_word ?r) (asc '';base64,'')" and
    d: "d = drop 8 (dropWhile is_word ?r)" and m: "m = asc ''image/'' @ takeWhile is_word ?r"
    by (auto simp add: match_data_url_def Let_def split: if_splits)
  have l1: "length (asc ''data:image/'') = 11" by (simp add: asc_def)
  have l2: "length (asc '';base64,'') = 8" by (simp add: asc_def)
  from startsWith_append [OF sw] l1 have s1: "s = asc ''data:image/'' @ ?r" by simp
  from startsWith_append [OF sw2] l2 d have s2: "dropWhile is_word ?r = asc '';base64,'' @ d" by simp
  have "?r = takeWhile is_word ?r @ dropWhile is_word ?r" by simp
  with s2 have "?r = takeWhile is_word ?r @ asc '';base64,'' @ d" by simp
  with s1 have "s = asc ''data:image/'' @ takeWhile is_word ?r @ asc '';base64,'' @ d" by simp
  with m show ?thesis by blast
qed

lemma malformed_url_no_match:
  assumes "\<not> (\<exists>sub d. imageDataUrl = asc ''data:image/'' @ sub @ asc '';base64,'' @ d)"
  shows "match_data_url imageDataUrl = None"
proof (cases "match_data_url imageDataUrl")
  case (Some x)
  then show ?thesis using assms match_data_url_shape [of imageDataUrl "fst x" "snd x"] by auto
qed simp

lemma sample_url_matches: "match_data_url sample_url = Some (asc ''image/png'', asc ''AAAA'')"
  by (simp add: match_data_url_def sample_url_def asc_def is_word_def is_line_terminator_def)

lemma svg_url_no_match: "match_data_url (asc ''data:image/svg+xml;base64,AAAA'') = None"
  by (simp add: match_data_url_def asc_def is_word_def)

text \<open>
  Claim C9. When the input does not match the pattern of the source, and in particular
  when it is not of the form \<open>data:image/<subtype>;base64,<data>\<close> at all,
  \<open>generateDecadeImage\<close> fails with the invalid-format error and leaves the state as
  it was: no request has been issued to the backend.
\<close>

theorem generateDecadeImage_rejects_malformed_url:
  "(match_data_url imageDataUrl = None
      \<or> \<not> (\<exists>sub d. imageDataUrl = asc ''data:image/'' @ sub @ asc '';base64,'' @ d))
   \<Longrightarrow> generateDecadeImage pf generateContent imageDataUrl prompt st
         = (Inl (Error invalidUrlMessage), st)"
  using malformed_url_no_match [of imageDataUrl] by (auto simp add: generateDecadeImage_def)

theorem generateDecadeImage_rejects_malformed_url_witness:
  "match_data_url (asc ''data:image/svg+xml;base64,AAAA'') = None
   \<and> generateDecadeImage sample_platform scripted (asc ''data:image/svg+xml;base64,AAAA'')
         (asc ''1950 ler'') (start_io [Inr (image_reply (asc ''image/png'') (asc ''AAAA''))])
       = (Inl (Error invalidUrlMessage),
          start_io [Inr (image_reply (asc ''image/png'') (asc ''AAAA''))])"
  using generateDecadeImage_rejects_malformed_url
    [of "asc ''data:image/svg+xml;base64,AAAA''" sample_platform scripted "asc ''1950 ler''"
        "start_io [Inr (image_reply (asc ''image/png'') (asc ''AAAA''))]"]
    svg_url_no_match
  by simp


section \<open>The error normalizer: what it returns\<close>

lemma errorMessage_of_Error: "errorMessage_of pf (ErrorObject m) = JStr m"
  by (simp add: errorMessage_of_def)

lemma errorMessage_of_raw:
  "e = ErrorObject raw \<or> (\<exists>v. e = NonError v \<and> JSON_stringify pf v = Some raw)
   \<Longrightarrow> errorMessage_of pf e = JStr raw"
  by (auto simp add: errorMessage_of_def)

lemma parseApiError_unfold:
  assumes "errorMessage_of pf e = JStr raw"
  shows "parseApiError pf e =
     (case JSON_parse pf raw of
        None \<Rightarrow> JStr raw
      | Some d \<Rightarrow>
          if error_field d (asc ''status'') = JStr (asc ''RESOURCE_EXHAUSTED'')
             \<or> error_field d (asc ''code'') = JNum 429
          then JStr quotaMessage
          else if truthy (error_field d (asc ''message''))
          then error_field d (asc ''message'') else JStr raw)"
  using assms by (simp add: parseApiError_def error_field_def to_string_def Let_def split: option.splits)

text \<open>
  Claim C3, as amended. Let \<open>raw\<close> be the raw message text: the message of an
  \<open>Error\<close>, or the JSON serialization of another value when that is a string. If
  \<open>raw\<close> does not parse, the normalizer returns \<open>raw\<close>. If it parses to \<open>d\<close> with
  \<open>error.status = RESOURCE_EXHAUSTED\<close> or \<open>error.code = 429\<close>, it returns the quota
  message. Otherwise, if \<open>error.message\<close> of \<open>d\<close> is a string that is not empty, it
  returns that string; if \<open>error.message\<close> is absent, \<open>null\<close>, the empty string,
  \<open>false\<close> or \<open>0\<close>, it returns \<open>raw\<close>. In each of these cases the result is a
  string. The normalizer is a total function with no error result.
\<close>

theorem parseApiError_normalizes:
  assumes "e = ErrorObject raw \<or> (\<exists>v. e = NonError v \<and> JSON_stringify pf v = Some raw)"
  shows "(JSON_parse pf raw = None \<longrightarrow> parseApiError pf e = JStr raw)
   \<and> (JSON_parse pf raw = Some d
        \<and> (error_field d (asc ''status'') = JStr (asc ''RESOURCE_EXHAUSTED'')
            \<or> error_field d (asc ''code'') = JNum 429)
      \<longrightarrow> parseApiError pf e = JStr quotaMessage)
   \<and> (JSON_parse pf raw = Some d
        \<and> error_field d (asc ''status'') \<noteq> JStr (asc ''RESOURCE_EXHAUSTED'')
        \<and> error_field d (asc ''code'') \<noteq> JNum 429
        \<and> error_field d (asc ''message'') = JStr m \<and> m \<noteq> []
      \<longrightarrow> parseApiError pf e = JStr m)
   \<and> (JSON_parse pf raw = Some d
        \<and> error_field d (asc ''status'') \<noteq> JStr (asc ''RESOURCE_EXHAUSTED'')
        \<and> error_field d (asc ''code'') \<noteq> JNum 429
        \<and> error_field d (asc ''message'') \<in> {JUndefined, JNull, JStr [], JBool False, JNum 0}
      \<longrightarrow> parseApiError pf e = JStr raw)"
  using parseApiError_unfold [OF errorMessage_of_raw [OF assms]] by auto

lemma sample_parse_simps:
  "JSON_parse sample_platform text_numeric_message
     = Some (JObj [(asc ''error'', JObj [(asc ''message'', JNum 5)])])"
  "JSON_parse sample_platform text_empty_message
     = Some (JObj [(asc ''error'', JObj [(asc ''message'', JStr [])])])"
  "JSON_parse sample_platform text_code_429
     = Some (JObj [(asc ''error'', JObj [(asc ''code'', JNum 429)])])"
  "JSON_parse sample_platform (asc ''INTERNAL'') = None"
  by (simp_all add: sample_platform_def sample_parse_def text_numeric_message_def
        text_empty_message_def text_code_429_def asc_def)

lemma field_names:
  "asc ''message'' \<noteq> asc ''status''" "asc ''message'' \<noteq> asc ''code''"
  "asc ''code'' \<noteq> asc ''status''" "asc ''code'' \<noteq> asc ''message''"
  "asc ''status'' \<noteq> asc ''code''" "asc ''status'' \<noteq> asc ''message''"
  by (simp_all add: asc_def)

text \<open>
  Claim C3 as stated fails where \<open>error.message\<close> is the empty string: the parsed
  object exposes the field, and the normalizer returns the raw text, not the field.
\<close>

theorem parseApiError_empty_message_counterexample:
  "error_field (the (JSON_parse sample_platform text_empty_message)) (asc ''message'') = JStr []
   \<and> parseApiError sample_platform (ErrorObject text_empty_message) = JStr text_empty_message
   \<and> JStr text_empty_message \<noteq> JStr []"
  by (simp add: parseApiError_unfold [OF errorMessage_of_Error] sample_parse_simps
        error_field_def field_names) (simp add: text_empty_message_def)

theorem parseApiError_normalizes_witness:
  "parseApiError sample_platform (ErrorObject (asc ''INTERNAL'')) = JStr (asc ''INTERNAL'')
   \<and> parseApiError sample_platform (ErrorObject text_code_429) = JStr quotaMessage
   \<and> parseApiError sample_platform (ErrorObject text_empty_message) = JStr text_empty_message"
  using parseApiError_normalizes
      [of "ErrorObject (asc ''INTERNAL'')" "asc ''INTERNAL''" sample_platform]
    parseApiError_normalizes
      [of "ErrorObject text_code_429" text_code_429 sample_platform
          "JObj [(asc ''error'', JObj [(asc ''code'', JNum 429)])]"]
    parseApiError_normalizes
      [of "ErrorObject text_empty_message" text_empty_message sample_platform
          "JObj [(asc ''error'', JObj [(asc ''message'', JStr [])])]"]
  by (simp add: sample_parse_simps error_field_def field_names)

lemma parseApiError_numeric:
  "parseApiError sample_platform (ErrorObject text_numeric_message) = JNum 5"
  by (simp add: parseApiError_unfold [OF errorMessage_of_Error] sample_parse_simps
        error_field_def field_names)


section \<open>The retrying call wrapper: its runs\<close>

lemma startsWith_self_append: "startsWith (a @ b) a"
  by (induction a) auto

lemma startsWith_includes: "startsWith s sub \<Longrightarrow> str_includes s sub"
  by (cases s) (auto elim: startsWith.elims)

lemma str_includes_prefix: "str_includes (a @ b) a"
  by (rule startsWith_includes [OF startsWith_self_append])








lemma wrapper_unfold:
  "attempt \<le> maxRetries \<Longrightarrow> generateContent (backend_state st) req = (r, b) \<Longrightarrow>
   callGeminiWithRetry_from pf generateContent req attempt st =
     (let st1 = st\<lparr>backend_state := b, trace := trace st @ [(req, r)]\<rparr> in
      case r of
        Inr response \<Rightarrow> (Inr response, st1)
      | Inl error \<Rightarrow>
          (case isInternalError (parseApiError pf error) of
             None \<Rightarrow> (Inl (TypeError (includes_TypeError pf (parseApiError pf error))), st1)
           | Some internal \<Rightarrow>
               if internal \<and> attempt < maxRetries
               then callGeminiWithRetry_from pf generateContent req (attempt + 1)
                      (st1\<lparr>delays := delays st1 @ [initialDelay * 2 ^ (attempt - 1)]\<rparr>)
               else (Inl (Error (to_string pf (parseApiError pf error))), st1)))"
  by (subst callGeminiWithRetry_from.simps) (simp add: Let_def split: sum.splits option.splits)

lemma wrapper_success:
  "generateContent (backend_state st) req = (Inr response, b) \<Longrightarrow>
   callGeminiWithRetry pf generateContent req st =
     (Inr response, st\<lparr>backend_state := b, trace := trace st @ [(req, Inr response)]\<rparr>)"
  by (simp add: callGeminiWithRetry_def wrapper_unfold maxRetries_def)




lemma wrapper_step:
  "attempt \<le> maxRetries \<Longrightarrow>
   callGeminiWithRetry_from pf generateContent req attempt st =
     (case generateContent (backend_state st) req of
        (r, b) \<Rightarrow>
          (case r of
             Inr response \<Rightarrow>
               (Inr response, st\<lparr>backend_state := b, trace := trace st @ [(req, r)]\<rparr>)
           | Inl error \<Rightarrow>
               (case isInternalError (parseApiError pf error) of
                  None \<Rightarrow>
                    (Inl (TypeError (includes_TypeError pf (parseApiError pf error))),
                     st\<lparr>backend_state := b, trace := trace st @ [(req, r)]\<rparr>)
                | Some internal \<Rightarrow>
                    if internal \<and> attempt < maxRetries
                    then callGeminiWithRetry_from pf generateContent req (attempt + 1)
                           (st\<lparr>backend_state := b, trace := trace st @ [(req, r)],
                               delays := delays st @ [initialDelay * 2 ^ (attempt - 1)]\<rparr>)
                    else (Inl (Error (to_string pf (parseApiError pf error))),
                          st\<lparr>backend_state := b, trace := trace st @ [(req, r)]\<rparr>))))"
  by (cases "generateContent (backend_state st) req")
     (simp add: wrapper_unfold Let_def split: sum.splits option.splits)

lemma sample_TypeError:
  "includes_TypeError sample_platform (JNum n) = asc ''parsedError.includes is not a function''"
  by (simp add: sample_platform_def)

lemma numeric_not_includable: "isInternalError (JNum n) = None"
  by (simp add: isInternalError_def)

text \<open>
  Claim C2. The wrapper should retry only when the normalized error message contains
  \<open>"code":500\<close> or \<open>INTERNAL\<close>, and otherwise fail at once with the normalized
  message. \<open>wrapper_run\<close> above gives every run: at most three calls, a retry after
  exactly the errors for which \<open>isInternalError\<close> holds, the delays
  \<open>1000 * 2 ^ (attempt - 1)\<close>, the first response returned as it came. But the value
  the normalizer returns need not be a string. When the backend throws an \<open>Error\<close>
  whose message is \<^verbatim>\<open>{"error":{"message":5}}\<close>, the normalizer returns the number
  \<open>5\<close>, \<open>parsedError.includes\<close> is not a function, and the wrapper fails with the
  engine's \<open>TypeError\<close> in place of the normalized message.
\<close>

theorem callGeminiWithRetry_numeric_message:
  "parseApiError sample_platform (ErrorObject text_numeric_message) = JNum 5
   \<and> callGeminiWithRetry sample_platform scripted sample_request
         (start_io [Inl (ErrorObject text_numeric_message)])
       = (Inl (TypeError (asc ''parsedError.includes is not a function'')),
          \<lparr>backend_state = [],
           trace = [(sample_request, Inl (ErrorObject text_numeric_message))],
           delays = []\<rparr>)"
  by (simp add: callGeminiWithRetry_def wrapper_step scripted_def start_io_def maxRetries_def
        parseApiError_numeric numeric_not_includable sample_TypeError)

lemma internal_is_internal: "isInternalError (JStr (asc ''INTERNAL'')) = Some True"
  by (simp add: isInternalError_def asc_def)

lemma parse_internal: "parseApiError sample_platform (ErrorObject (asc ''INTERNAL'')) = JStr (asc ''INTERNAL'')"
  by (simp add: parseApiError_unfold [OF errorMessage_of_Error] sample_parse_simps)

lemma retry_twice_then_success:
  "callGeminiWithRetry sample_platform scripted sample_request
     (start_io [Inl (ErrorObject (asc ''INTERNAL'')), Inl (ErrorObject (asc ''INTERNAL'')),
                Inr (text_only (asc ''no''))])
   = (Inr (text_only (asc ''no'')),
      \<lparr>backend_state = [],
       trace = [(sample_request, Inl (ErrorObject (asc ''INTERNAL''))),
                (sample_request, Inl (ErrorObject (asc ''INTERNAL''))),
                (sample_request, Inr (text_only (asc ''no'')))],
       delays = [1000, 2000]\<rparr>)"
  by (simp add: callGeminiWithRetry_def wrapper_unfold scripted_def start_io_def
        maxRetries_def initialDelay_def parse_internal internal_is_internal)

lemma retry_three_internal:
  "callGeminiWithRetry sample_platform scripted sample_request
     (start_io [Inl (ErrorObject (asc ''INTERNAL'')), Inl (ErrorObject (asc ''INTERNAL'')),
                Inl (ErrorObject (asc ''INTERNAL'')), Inr (text_only (asc ''no''))])
   = (Inl (Error (asc ''INTERNAL'')),
      \<lparr>backend_state = [Inr (text_only (asc ''no''))],
       trace = [(sample_request, Inl (ErrorObject (asc ''INTERNAL''))),
                (sample_request, Inl (ErrorObject (asc ''INTERNAL''))),
                (sample_request, Inl (ErrorObject (asc ''INTERNAL'')))],
       delays = [1000, 2000]\<rparr>)"
  by (simp add: callGeminiWithRetry_def wrapper_unfold scripted_def start_io_def
        maxRetries_def initialDelay_def parse_internal internal_is_internal to_string_def)


section \<open>The fallback orchestrator: its runs\<close>

lemma decade_here_length: "decade_here s = Some m \<Longrightarrow> length m = 8"
  by (cases s rule: decade_here.cases) (auto split: if_splits)

lemma extractDecade_length: "extractDecade s = Some m \<Longrightarrow> length m = 8"
  by (induction s) (auto split: option.splits dest: decade_here_length)

lemma extractDecade_nonempty: "extractDecade s = Some m \<Longrightarrow> m \<noteq> []"
  by (auto dest: extractDecade_length)

lemma attempt_text_only:
  assumes g: "generateContent (backend_state st) \<lparr>imagePart = img, textPart = p\<rparr> = (Inr response, b)"
    and t: "\<forall>q \<in> set (first_parts response). inlineData q = None"
  shows "\<exists>t. attempt_with pf generateContent img p st
           = (Inl (Error (noImageText @ t)),
              st\<lparr>backend_state := b,
                 trace := trace st @ [(\<lparr>imagePart = img, textPart = p\<rparr>, Inr response)]\<rparr>)
         \<and> processGeminiResponse response = Inl (Error (noImageText @ t))"
  using classifier_no_image [OF t]
    wrapper_success [where generateContent = generateContent and st = st and pf = pf, OF g]
  by (simp add: attempt_with_def)

text \<open>
  Claim C5. The image data URL is well formed (claim C9 covers the other case) and the
  backend answers every request with a reply none of whose content parts carries inline
  data. If \<open>extractDecade\<close> finds the era token \<open>decade\<close> in the prompt, exactly two
  requests are issued, the primary prompt and then the fallback prompt for \<open>decade\<close>,
  and the failure is the both-failed text followed by the message of the error the
  classifier raised on the second reply. If it finds none, exactly one request is
  issued and the failure is the very error the classifier raised on the first reply, a
  no-image error.
\<close>

theorem generateDecadeImage_text_only_backend:
  assumes u: "match_data_url imageDataUrl = Some img"
    and t: "\<And>b req. \<exists>response b'. generateContent b req = (Inr response, b')
              \<and> (\<forall>q \<in> set (first_parts response). inlineData q = None)"
  shows "(extractDecade prompt = Some decade \<longrightarrow>
           (\<exists>m st' response2. generateDecadeImage pf generateContent imageDataUrl prompt st
               = (Inl (Error (bothFailedText @ m)), st')
             \<and> calls st' = calls st @ [\<lparr>imagePart = img, textPart = prompt\<rparr>,
                    \<lparr>imagePart = img, textPart = getFallbackPrompt decade\<rparr>]
             \<and> snd (last (trace st')) = Inr response2
             \<and> processGeminiResponse response2 = Inl (Error m)))
       \<and> (extractDecade prompt = None \<longrightarrow>
           (\<exists>e st' response1. generateDecadeImage pf generateContent imageDataUrl prompt st
               = (Inl e, st')
             \<and> calls st' = calls st @ [\<lparr>imagePart = img, textPart = prompt\<rparr>]
             \<and> snd (last (trace st')) = Inr response1
             \<and> processGeminiResponse response1 = Inl e
             \<and> str_includes (message e) noImageText))"
proof -
  let ?r1 = "\<lparr>imagePart = img, textPart = prompt\<rparr>"
  from t [of "backend_state st" ?r1] obtain response1 b1 where
    g1: "generateContent (backend_state st) ?r1 = (Inr response1, b1)"
    and t1: "\<forall>q \<in> set (first_parts response1). inlineData q = None" by blast
  let ?st1 = "st\<lparr>backend_state := b1, trace := trace st @ [(?r1, Inr response1)]\<rparr>"
  from attempt_text_only [where generateContent = generateContent and st = st and pf = pf, OF g1 t1] obtain t1' where
    a1: "attempt_with pf generateContent img prompt st = (Inl (Error (noImageText @ t1')), ?st1)"
    and c1: "processGeminiResponse response1 = Inl (Error (noImageText @ t1'))" by blast
  have inc: "str_includes (noImageText @ t1') noImageText" by (rule str_includes_prefix)
  show ?thesis
  proof (intro conjI impI)
    assume d: "extractDecade prompt = Some decade"
    let ?r2 = "\<lparr>imagePart = img, textPart = getFallbackPrompt decade\<rparr>"
    have bs: "backend_state ?st1 = b1" by simp
    from t [of b1 ?r2] obtain response2 b2 where
      g2: "generateContent (backend_state ?st1) ?r2 = (Inr response2, b2)"
      and t2: "\<forall>q \<in> set (first_parts response2). inlineData q = None" unfolding bs by blast
    let ?st2 = "?st1\<lparr>backend_state := b2, trace := trace ?st1 @ [(?r2, Inr response2)]\<rparr>"
    from attempt_text_only [where generateContent = generateContent and st = ?st1 and pf = pf, OF g2 t2] obtain t2' where
      a2: "attempt_with pf generateContent img (getFallbackPrompt decade) ?st1
             = (Inl (Error (noImageText @ t2')), ?st2)"
      and c2: "processGeminiResponse response2 = Inl (Error (noImageText @ t2'))" by blast
    have "generateDecadeImage pf generateContent imageDataUrl prompt st
            = (Inl (Error (bothFailedText @ noImageText @ t2')), ?st2)"
      using u a1 a2 inc d extractDecade_nonempty [OF d]
      by (simp add: generateDecadeImage_def Let_def)
    moreover have "calls ?st2 = calls st @ [?r1, ?r2]" by (simp add: calls_def)
    moreover have "snd (last (trace ?st2)) = Inr response2" by simp
    ultimately show "\<exists>m st' response2. generateDecadeImage pf generateContent imageDataUrl prompt st
               = (Inl (Error (bothFailedText @ m)), st')
             \<and> calls st' = calls st @ [?r1, ?r2]
             \<and> snd (last (trace st')) = Inr response2
             \<and> processGeminiResponse response2 = Inl (Error m)"
      using c2 by blast
  next
    assume d: "extractDecade prompt = None"
    have "generateDecadeImage pf generateContent imageDataUrl prompt st
            = (Inl (Error (noImageText @ t1')), ?st1)"
      using u a1 inc d by (simp add: generateDecadeImage_def Let_def)
    moreover have "calls ?st1 = calls st @ [?r1]" by (simp add: calls_def)
    moreover have "snd (last (trace ?st1)) = Inr response1" by simp
    ultimately show "\<exists>e st' response1. generateDecadeImage pf generateContent imageDataUrl prompt st
               = (Inl e, st')
             \<and> calls st' = calls st @ [?r1]
             \<and> snd (last (trace st')) = Inr response1
             \<and> processGeminiResponse response1 = Inl e
             \<and> str_includes (message e) noImageText"
      using c1 inc by (metis message.simps(1))
  qed
qed

lemma first_parts_text_only: "first_parts (text_only t) = []"
  by (simp add: first_parts_def text_only_def)

lemma always_text_only_ok:
  "\<exists>response b'. always_text_only b req = (Inr response, b')
      \<and> (\<forall>q \<in> set (first_parts response). inlineData q = None)"
  by (simp add: always_text_only_def first_parts_text_only)

theorem generateDecadeImage_text_only_backend_witness:
  "match_data_url sample_url = Some (asc ''image/png'', asc ''AAAA'')
   \<and> (\<exists>m st'. generateDecadeImage sample_platform always_text_only sample_url
          (getPromptForDecade creative (asc ''1950 ler'')) (start_io ())
        = (Inl (Error (bothFailedText @ m)), st')
      \<and> calls st' =
          [\<lparr>imagePart = (asc ''image/png'', asc ''AAAA''),
            textPart = getPromptForDecade creative (asc ''1950 ler'')\<rparr>,
           \<lparr>imagePart = (asc ''image/png'', asc ''AAAA''),
            textPart = getFallbackPrompt (asc ''1950 ler'')\<rparr>])
   \<and> (\<exists>e st'. generateDecadeImage sample_platform always_text_only sample_url
          (getPromptForDecade creative (asc ''1960 lar'')) (start_io ())
        = (Inl e, st')
      \<and> calls st' =
          [\<lparr>imagePart = (asc ''image/png'', asc ''AAAA''),
            textPart = getPromptForDecade creative (asc ''1960 lar'')\<rparr>]
      \<and> str_includes (message e) noImageText)"
proof -
  have c0: "calls (start_io ()) = []" by (simp add: calls_def start_io_def)
  have f: "extractDecade (getPromptForDecade creative (asc ''1950 ler'')) = Some (asc ''1950 ler'')"
    by (rule ler_found) simp
  have n: "extractDecade (getPromptForDecade creative (asc ''1960 lar'')) = None"
    by (rule lar_miss) simp
  from generateDecadeImage_text_only_backend
      [where generateContent = always_text_only and pf = sample_platform
         and st = "start_io ()" and prompt = "getPromptForDecade creative (asc ''1950 ler'')"
         and decade = "asc ''1950 ler''",
       OF sample_url_matches always_text_only_ok] f c0
  have 1: "\<exists>m st'. generateDecadeImage sample_platform always_text_only sample_url
          (getPromptForDecade creative (asc ''1950 ler'')) (start_io ())
        = (Inl (Error (bothFailedText @ m)), st')
      \<and> calls st' =
          [\<lparr>imagePart = (asc ''image/png'', asc ''AAAA''),
            textPart = getPromptForDecade creative (asc ''1950 ler'')\<rparr>,
           \<lparr>imagePart = (asc ''image/png'', asc ''AAAA''),
            textPart = getFallbackPrompt (asc ''1950 ler'')\<rparr>]"
    by (simp del: getPromptForDecade.simps) blast
  from generateDecadeImage_text_only_backend
      [where generateContent = always_text_only and pf = sample_platform
         and st = "start_io ()" and prompt = "getPromptForDecade creative (asc ''1960 lar'')",
       OF sample_url_matches always_text_only_ok] n c0
  have 2: "\<exists>e st'. generateDecadeImage sample_platform always_text_only sample_url
          (getPromptForDecade creative (asc ''1960 lar'')) (start_io ())
        = (Inl e, st')
      \<and> calls st' =
          [\<lparr>imagePart = (asc ''image/png'', asc ''AAAA''),
            textPart = getPromptForDecade creative (asc ''1960 lar'')\<rparr>]
      \<and> str_includes (message e) noImageText"
    by (simp del: getPromptForDecade.simps) blast
  from 1 2 sample_url_matches show ?thesis by blast
qed

section \<open>Quota exhaustion\<close>


















text \<open>A session reset clears the fatal error, so that regeneration is accepted again.\<close>

lemma reset_clears_fatal: "\<not> present (fatalError (handleReset a))"
  by (simp add: handleReset_def present_def)


section \<open>Regeneration\<close>

text \<open>
  Claim C8. A source image is uploaded, no fatal error is present, and the job
  \<open>decade\<close> has the entry \<open>img\<close>, which is not pending. Then the first update of
  \<open>handleRegenerateDecade\<close> sets the entry of \<open>decade\<close> to \<open>img\<close> with the status
  \<open>pending\<close>, its \<open>url\<close> and its error kept, and leaves the entry of every other job as
  it was; so does the whole call, once the new attempt has settled.
\<close>

theorem regenerate_marks_only_its_job:
  assumes "present (uploadedImage a)" "\<not> present (fatalError a)"
    and "generatedImages a decade = Some img" "status img \<noteq> status_pending"
  shows "(\<exists>a1. regenerate_begin decade a = Some a1
            \<and> generatedImages a1 decade = Some (img\<lparr>status := status_pending\<rparr>)
            \<and> (\<forall>d. d \<noteq> decade \<longrightarrow> generatedImages a1 d = generatedImages a d))
       \<and> status (img\<lparr>status := status_pending\<rparr>) = status_pending
       \<and> url (img\<lparr>status := status_pending\<rparr>) = url img
       \<and> error_msg (img\<lparr>status := status_pending\<rparr>) = error_msg img
       \<and> (\<forall>d. d \<noteq> decade \<longrightarrow>
            generatedImages (fst (handleRegenerateDecade pf gen decade (a, st))) d
              = generatedImages a d)"
  using assms
  by (auto simp add: regenerate_begin_def handleRegenerateDecade_def record_result_def Let_def
        split: prod.splits sum.splits)


theorem regenerate_marks_only_its_job_witness:
  "\<exists>a1. regenerate_begin (asc ''1950 ler'') sample_done_app = Some a1
      \<and> generatedImages a1 (asc ''1950 ler'')
          = Some \<lparr>status = status_pending, url = Some sample_url, error_msg = None\<rparr>
      \<and> generatedImages a1 (asc ''1970 ler'') = generatedImages sample_done_app (asc ''1970 ler'')
      \<and> generatedImages
           (fst (handleRegenerateDecade sample_platform scripted (asc ''1950 ler'')
                  (sample_done_app, start_io [Inr (text_only (asc ''no''))])))
           (asc ''1970 ler'')
          = generatedImages sample_done_app (asc ''1970 ler'')"
proof -
  have 1: "present (uploadedImage sample_done_app)"
    by (simp add: sample_done_app_def sample_app_def present_def sample_url_def asc_def)
  have 2: "\<not> present (fatalError sample_done_app)"
    by (simp add: sample_done_app_def sample_app_def present_def)
  have 3: "generatedImages sample_done_app (asc ''1950 ler'')
             = Some \<lparr>status = status_done, url = Some sample_url, error_msg = None\<rparr>"
    by (simp add: sample_done_app_def)
  have 4: "status \<lparr>status = status_done, url = Some sample_url, error_msg = None\<rparr>
             \<noteq> status_pending" by simp
  have 5: "asc ''1970 ler'' \<noteq> asc ''1950 ler''" by (simp add: asc_def)
  from regenerate_marks_only_its_job [OF 1 2 3 4, of sample_platform scripted
      "start_io [Inr (text_only (asc ''no''))]"] 5
  show ?thesis by auto
qed


section \<open>The initial batch\<close>

lemma decades_nonempty: "[] \<notin> set DECADES"
  by (simp add: DECADES_def asc_def)

lemma settled_record_result: "settled (generatedImages (record_result d r a) d)"
  by (cases r) (simp_all add: record_result_def settled_def Let_def)

lemma other_record_result:
  "d' \<noteq> d \<Longrightarrow> generatedImages (record_result d r a) d' = generatedImages a d'"
  by (cases r) (simp_all add: record_result_def Let_def)

lemma keep_in_update:
  assumes "x \<in> set ws" "x \<noteq> ws ! i"
  shows "x \<in> set (ws[i := y])"
proof -
  from assms(1) obtain j where j: "j < length ws" "ws ! j = x" by (auto simp add: in_set_conv_nth)
  with assms(2) have "j \<noteq> i" by auto
  with j have "ws[i := y] ! j = x" "j < length (ws[i := y])" by simp_all
  then show ?thesis by (metis nth_mem)
qed

lemma new_in_update: "i < length ws \<Longrightarrow> y \<in> set (ws[i := y])"
  by (simp add: set_update_memI)

lemma from_update: "x \<in> set (ws[i := y]) \<Longrightarrow> x = y \<or> x \<in> set ws"
  using set_update_subset_insert [of ws i y] by auto

lemma batch_inv_initial:
  assumes "handleGenerateClick_begin a = Some b0"
  shows "batch_inv b0"
proof -
  from assms have b0: "b0 = \<lparr>app_state = a\<lparr>generatedImages := initialImages\<rparr>,
                 decadesQueue = DECADES,
                 workers = replicate concurrencyLimit AtLoopHead\<rparr>"
    by (simp add: handleGenerateClick_begin_def split: if_splits)
  show ?thesis unfolding b0 by (simp add: batch_inv_def)
qed

lemma batch_inv_step:
  assumes "step b b'" "batch_inv b"
  shows "batch_inv b'"
  using assms
proof (cases rule: step.cases)
  case (shift i decade q)
  have len: "length (workers b') = concurrencyLimit"
    using shift assms(2) by (simp add: batch_inv_def)
  have ex: "Exited \<notin> set (workers b')"
  proof
    assume "Exited \<in> set (workers b')"
    with shift have "Exited \<in> set (workers b)" by (auto dest: from_update)
    with assms(2) shift show False by (simp add: batch_inv_def)
  qed
  have "d \<in> set (decadesQueue b') \<or> Awaiting d \<in> set (workers b')
          \<or> settled (generatedImages (app_state b') d)" if d: "d \<in> set DECADES" for d
  proof -
    from assms(2) d have "d \<in> set (decadesQueue b) \<or> Awaiting d \<in> set (workers b)
          \<or> settled (generatedImages (app_state b) d)" by (simp add: batch_inv_def)
    then show ?thesis
    proof (elim disjE)
      assume "d \<in> set (decadesQueue b)"
      with shift have "d = decade \<or> d \<in> set q" by auto
      then show ?thesis using shift by (auto simp add: new_in_update)
    next
      assume "Awaiting d \<in> set (workers b)"
      then have "Awaiting d \<in> set ((workers b)[i := Awaiting decade])"
        using shift by (intro keep_in_update) simp_all
      then show ?thesis using shift by simp
    next
      assume "settled (generatedImages (app_state b) d)"
      then show ?thesis using shift by simp
    qed
  qed
  with len ex show ?thesis by (simp add: batch_inv_def)
next
  case (shift_empty i q)
  have len: "length (workers b') = concurrencyLimit"
    using shift_empty assms(2) by (simp add: batch_inv_def)
  have ex: "Exited \<notin> set (workers b')"
    using shift_empty assms(2) by (auto simp add: batch_inv_def)
  have "d \<in> set (decadesQueue b') \<or> Awaiting d \<in> set (workers b')
          \<or> settled (generatedImages (app_state b') d)" if d: "d \<in> set DECADES" for d
  proof -
    from d decades_nonempty have "d \<noteq> []" by auto
    moreover from assms(2) d have "d \<in> set (decadesQueue b) \<or> Awaiting d \<in> set (workers b)
          \<or> settled (generatedImages (app_state b) d)" by (simp add: batch_inv_def)
    ultimately show ?thesis using shift_empty by auto
  qed
  with len ex show ?thesis by (simp add: batch_inv_def)
next
  case (settle i decade r)
  have len: "length (workers b') = concurrencyLimit"
    using settle assms(2) by (simp add: batch_inv_def)
  have ex: "Exited \<in> set (workers b') \<longrightarrow> decadesQueue b' = []"
  proof
    assume "Exited \<in> set (workers b')"
    with settle have "Exited \<in> set (workers b)" by (auto dest: from_update)
    with assms(2) settle show "decadesQueue b' = []" by (simp add: batch_inv_def)
  qed
  have "d \<in> set (decadesQueue b') \<or> Awaiting d \<in> set (workers b')
          \<or> settled (generatedImages (app_state b') d)" if d: "d \<in> set DECADES" for d
  proof (cases "d = decade")
    case True
    then show ?thesis using settle by (simp add: settled_record_result)
  next
    case False
    from assms(2) d have "d \<in> set (decadesQueue b) \<or> Awaiting d \<in> set (workers b)
          \<or> settled (generatedImages (app_state b) d)" by (simp add: batch_inv_def)
    then show ?thesis
    proof (elim disjE)
      assume "d \<in> set (decadesQueue b)"
      then show ?thesis using settle by simp
    next
      assume "Awaiting d \<in> set (workers b)"
      then have "Awaiting d \<in> set ((workers b)[i := AtLoopHead])"
        using settle False by (intro keep_in_update) simp_all
      then show ?thesis using settle by simp
    next
      assume "settled (generatedImages (app_state b) d)"
      then show ?thesis using settle False by (simp add: other_record_result)
    qed
  qed
  with len ex show ?thesis by (simp add: batch_inv_def)
next
  case (leave i)
  have len: "length (workers b') = concurrencyLimit"
    using leave assms(2) by (simp add: batch_inv_def)
  have q: "decadesQueue b' = []" using leave by simp
  have "d \<in> set (decadesQueue b') \<or> Awaiting d \<in> set (workers b')
          \<or> settled (generatedImages (app_state b') d)" if d: "d \<in> set DECADES" for d
  proof -
    from assms(2) d have "d \<in> set (decadesQueue b) \<or> Awaiting d \<in> set (workers b)
          \<or> settled (generatedImages (app_state b) d)" by (simp add: batch_inv_def)
    then show ?thesis
    proof (elim disjE)
      assume "d \<in> set (decadesQueue b)"
      then show ?thesis using leave by simp
    next
      assume "Awaiting d \<in> set (workers b)"
      then have "Awaiting d \<in> set ((workers b)[i := Exited])"
        using leave by (intro keep_in_update) simp_all
      then show ?thesis using leave by simp
    next
      assume "settled (generatedImages (app_state b) d)"
      then show ?thesis using leave by simp
    qed
  qed
  with len q show ?thesis by (simp add: batch_inv_def)
qed

lemma batch_inv_reachable:
  assumes "step\<^sup>*\<^sup>* b0 b" "batch_inv b0"
  shows "batch_inv b"
  using assms by (induction rule: rtranclp_induct) (auto intro: batch_inv_step)

lemma resolved_settled:
  assumes "batch_inv b" "resolved b" "d \<in> set DECADES"
  shows "settled (generatedImages (app_state b) d)"
proof -
  from assms(2) have all: "\<forall>w \<in> set (workers b). w = Exited"
    by (simp add: resolved_def list_all_iff)
  from assms(1) have "length (workers b) = 2" by (simp add: batch_inv_def concurrencyLimit_def)
  then have "workers b \<noteq> []" by auto
  then obtain w where "w \<in> set (workers b)" by (cases "workers b") auto
  with all have "Exited \<in> set (workers b)" by auto
  with assms(1) have "decadesQueue b = []" by (simp add: batch_inv_def)
  moreover from all have "Awaiting d \<notin> set (workers b)" by auto
  ultimately show ?thesis using assms(1,3) by (auto simp add: batch_inv_def)
qed

text \<open>
  Claim C6. The batch starts from a state with an uploaded image and runs by the steps
  of the two workers, in any interleaving and with any result, success or failure, for
  each job. In every state in which all workers have left their loops, each of the six
  decades of \<open>DECADES\<close> has an entry that is \<open>done\<close> with a URL or \<open>error\<close> with a
  message: none is pending, whatever the other jobs' results were. (The batch does get
  there: \<open>batch_no_deadlock\<close> and \<open>batch_step_decreases\<close> below.)
\<close>

theorem batch_settles_every_job:
  assumes "handleGenerateClick_begin a = Some b0" "step\<^sup>*\<^sup>* b0 b" "resolved b"
  shows "length DECADES = 6
     \<and> (\<forall>d \<in> set DECADES. settled (generatedImages (app_state b) d))"
  using resolved_settled [OF batch_inv_reachable [OF assms(2) batch_inv_initial [OF assms(1)]] assms(3)]
  by (simp add: DECADES_def)

lemma one_job:
  assumes "0 < length (workers b)" "workers b ! 0 = AtLoopHead" "decadesQueue b = d # q" "d \<noteq> []"
  shows "step\<^sup>*\<^sup>* b (b\<lparr>decadesQueue := q, app_state := record_result d r (app_state b)\<rparr>)"
proof -
  let ?b1 = "b\<lparr>decadesQueue := q, workers := (workers b)[0 := Awaiting d]\<rparr>"
  let ?b2 = "?b1\<lparr>app_state := record_result d r (app_state ?b1),
                  workers := (workers ?b1)[0 := AtLoopHead]\<rparr>"
  have s1: "step b ?b1" using assms by (rule step.shift)
  have s2: "step ?b1 ?b2" by (rule step.settle [where decade = d]) (use assms in simp_all)
  have "(workers b)[0 := AtLoopHead] = workers b" using assms(2) by (metis list_update_id)
  then have "?b2 = b\<lparr>decadesQueue := q, app_state := record_result d r (app_state b)\<rparr>"
    by simp
  with s1 s2 show ?thesis by (metis rtranclp.rtrancl_into_rtrancl rtranclp.rtrancl_refl)
qed

lemma drain:
  "decadesQueue b = qs \<Longrightarrow> [] \<notin> set qs \<Longrightarrow> 0 < length (workers b)
   \<Longrightarrow> workers b ! 0 = AtLoopHead
   \<Longrightarrow> step\<^sup>*\<^sup>* b (b\<lparr>decadesQueue := [],
                    app_state := fold (\<lambda>d a. record_result d (f d) a) qs (app_state b)\<rparr>)"
proof (induction qs arbitrary: b)
  case Nil
  then have "b\<lparr>decadesQueue := [], app_state := fold (\<lambda>d a. record_result d (f d) a) [] (app_state b)\<rparr> = b"
    by simp
  then show ?case by simp
next
  case (Cons d q)
  let ?b2 = "b\<lparr>decadesQueue := q, app_state := record_result d (f d) (app_state b)\<rparr>"
  from Cons.prems have "step\<^sup>*\<^sup>* b ?b2" by (intro one_job) auto
  moreover from Cons.prems have
    "step\<^sup>*\<^sup>* ?b2 (?b2\<lparr>decadesQueue := [],
        app_state := fold (\<lambda>d a. record_result d (f d) a) q (app_state ?b2)\<rparr>)"
    by (intro Cons.IH) simp_all
  ultimately show ?case by simp
qed

lemma sample_batch_run: "step\<^sup>*\<^sup>* sample_batch_begin sample_batch_end"
proof -
  let ?A = "fold (\<lambda>d a. record_result d (sample_outcome d) a) DECADES
                    (sample_app\<lparr>generatedImages := initialImages\<rparr>)"
  let ?b1 = "\<lparr>app_state = ?A, decadesQueue = [], workers = [AtLoopHead, AtLoopHead]\<rparr>"
  let ?b2 = "\<lparr>app_state = ?A, decadesQueue = [], workers = [Exited, AtLoopHead]\<rparr>"
  have "step\<^sup>*\<^sup>* sample_batch_begin
          (sample_batch_begin\<lparr>decadesQueue := [],
             app_state := fold (\<lambda>d a. record_result d (sample_outcome d) a) DECADES
                (app_state sample_batch_begin)\<rparr>)"
    by (rule drain) (simp_all add: sample_batch_begin_def decades_nonempty concurrencyLimit_def)
  then have 1: "step\<^sup>*\<^sup>* sample_batch_begin ?b1"
    by (simp add: sample_batch_begin_def concurrencyLimit_def numeral_2_eq_2)
  have 2: "step ?b1 ?b2" using step.leave [of 0 ?b1] by simp
  have 3: "step ?b2 sample_batch_end" using step.leave [of 1 ?b2] by (simp add: sample_batch_end_def)
  from 1 2 3 show ?thesis by (meson rtranclp.rtrancl_into_rtrancl)
qed

lemma sample_begin: "handleGenerateClick_begin sample_app = Some sample_batch_begin"
  by (simp add: handleGenerateClick_begin_def sample_batch_begin_def sample_app_def present_def
        sample_url_def asc_def)

theorem batch_settles_every_job_witness:
  "handleGenerateClick_begin sample_app = Some sample_batch_begin
   \<and> step\<^sup>*\<^sup>* sample_batch_begin sample_batch_end
   \<and> resolved sample_batch_end
   \<and> list_all (\<lambda>d. settled (generatedImages (app_state sample_batch_end) d)) DECADES
   \<and> map_option status (generatedImages (app_state sample_batch_end) (asc ''1960 lar''))
       = Some status_error
   \<and> map_option status (generatedImages (app_state sample_batch_end) (asc ''1970 ler''))
       = Some status_done"
proof -
  have r: "resolved sample_batch_end" by (simp add: resolved_def sample_batch_end_def)
  from batch_settles_every_job [OF sample_begin sample_batch_run r]
  have "list_all (\<lambda>d. settled (generatedImages (app_state sample_batch_end) d)) DECADES"
    by (simp add: list_all_iff)
  moreover have "map_option status (generatedImages (app_state sample_batch_end) (asc ''1960 lar''))
       = Some status_error"
    by (simp add: sample_batch_end_def DECADES_def sample_outcome_def record_result_def Let_def
          asc_def)
  moreover have "map_option status (generatedImages (app_state sample_batch_end) (asc ''1970 ler''))
       = Some status_done"
    by (simp add: sample_batch_end_def DECADES_def sample_outcome_def record_result_def Let_def
          asc_def)
  ultimately show ?thesis using sample_begin sample_batch_run r by simp
qed

lemma filter_update:
  "i < length xs \<Longrightarrow>
   length (filter P (xs[i := y])) + (if P (xs ! i) then 1 else 0)
     = length (filter P xs) + (if P y then 1 else 0)"
proof (induction xs arbitrary: i)
  case Nil
  then show ?case by simp
next
  case (Cons x xs)
  show ?case
  proof (cases i)
    case 0
    then show ?thesis by simp
  next
    case (Suc j)
    with Cons.prems have "j < length xs" by simp
    from Cons.IH [OF this] Suc show ?thesis by simp
  qed
qed

lemma batch_step_decreases:
  assumes "step b b'"
  shows "batch_measure b' < batch_measure b"
  using assms
proof (cases rule: step.cases)
  case (shift i decade q)
  with filter_update [of i "workers b" "\<lambda>w. w \<noteq> Exited" "Awaiting decade"]
    filter_update [of i "workers b" "\<lambda>w. w \<noteq> AtLoopHead \<and> w \<noteq> Exited" "Awaiting decade"]
  show ?thesis by (simp add: batch_measure_def)
next
  case (shift_empty i q)
  then show ?thesis by (simp add: batch_measure_def)
next
  case (settle i decade r)
  with filter_update [of i "workers b" "\<lambda>w. w \<noteq> Exited" AtLoopHead]
    filter_update [of i "workers b" "\<lambda>w. w \<noteq> AtLoopHead \<and> w \<noteq> Exited" AtLoopHead]
  show ?thesis by (simp add: batch_measure_def)
next
  case (leave i)
  with filter_update [of i "workers b" "\<lambda>w. w \<noteq> Exited" Exited]
    filter_update [of i "workers b" "\<lambda>w. w \<noteq> AtLoopHead \<and> w \<noteq> Exited" Exited]
  show ?thesis by (simp add: batch_measure_def)
qed

lemma batch_no_deadlock:
  assumes "\<not> resolved b"
  shows "\<exists>b'. step b b'"
proof -
  from assms obtain w where "w \<in> set (workers b)" "w \<noteq> Exited"
    by (auto simp add: resolved_def list_all_iff)
  then obtain i where i: "i < length (workers b)" "workers b ! i = w"
    by (auto simp add: in_set_conv_nth)
  show ?thesis
  proof (cases w)
    case AtLoopHead
    show ?thesis
    proof (cases "decadesQueue b")
      case Nil
      with i AtLoopHead show ?thesis by (blast intro: step.leave)
    next
      case (Cons d q)
      with i AtLoopHead show ?thesis
        by (cases "d = []") (blast intro: step.shift_empty step.shift)+
    qed
  next
    case (Awaiting d)
    with i show ?thesis by (blast intro: step.settle)
  next
    case Exited
    with \<open>w \<noteq> Exited\<close> show ?thesis by simp
  qed
qed


section \<open>Outstanding backend calls\<close>

lemma run_job_wrapper:
  "n = maxRetries - attempt \<Longrightarrow> attempt \<le> maxRetries \<Longrightarrow>
   run_job pf gen (Calling stg attempt req prompt) st =
     (case callGeminiWithRetry_from pf gen req attempt st of
        (res, st1) \<Rightarrow>
          (case attempt_settled stg req prompt
                  (case res of Inl e \<Rightarrow> Inl e
                   | Inr response \<Rightarrow> processGeminiResponse response) of
             Finished r \<Rightarrow> (r, st1)
           | Continue js \<Rightarrow> run_job pf gen js st1))"
proof (induction n arbitrary: attempt st)
  case 0
  then have a: "attempt = maxRetries" by simp
  obtain out b where g: "gen (backend_state st) req = (out, b)"
    by (cases "gen (backend_state st) req")
  show ?case
    by (subst run_job.simps(1), cases out)
       (simp_all add: wrapper_step a g call_settled_def Let_def split: option.splits)
next
  case (Suc n)
  then have a: "attempt < maxRetries" "attempt \<le> maxRetries" by simp_all
  have ih: "run_job pf gen (Calling stg (Suc attempt) req prompt) st' =
     (case callGeminiWithRetry_from pf gen req (Suc attempt) st' of
        (res, st1) \<Rightarrow>
          (case attempt_settled stg req prompt
                  (case res of Inl e \<Rightarrow> Inl e
                   | Inr response \<Rightarrow> processGeminiResponse response) of
             Finished r \<Rightarrow> (r, st1)
           | Continue js \<Rightarrow> run_job pf gen js st1))" for st'
    using Suc.prems by (intro Suc.IH) simp_all
  obtain out b where g: "gen (backend_state st) req = (out, b)"
    by (cases "gen (backend_state st) req")
  show ?case
    by (subst run_job.simps(1), cases out)
       (simp_all add: wrapper_step a g call_settled_def Let_def run_job.simps(2) ih
          split: option.splits)
qed

lemma generateDecadeImage_as_job:
  "generateDecadeImage pf gen imageDataUrl prompt st =
     (case generateDecadeImage_start imageDataUrl prompt of
        Finished r \<Rightarrow> (r, st)
      | Continue js \<Rightarrow> run_job pf gen js st)"
  by (simp add: generateDecadeImage_def generateDecadeImage_start_def attempt_with_def
        callGeminiWithRetry_def run_job_wrapper maxRetries_def attempt_settled_def Let_def
        split: option.splits prod.splits sum.splits)


lemma proceed_inv:
  assumes len: "length (cb_workers b) = concurrencyLimit"
    and i: "i < length (cb_workers b)"
    and dist: "distinct (map fst (outstanding b))"
    and free: "i \<notin> fst ` set (outstanding b)"
    and own: "\<forall>c \<in> set (outstanding b).
            fst c < length (cb_workers b)
            \<and> (\<exists>decade stg attempt prompt.
                  cb_workers b ! fst c = Running decade (Calling stg attempt (snd c) prompt))"
  shows "call_inv (proceed i decade nx b)"
proof -
  have keep: "(cb_workers b)[i := w] ! fst c = cb_workers b ! fst c"
    if "c \<in> set (outstanding b)" for c w
  proof -
    from that free have "fst c \<noteq> i" by auto
    then show ?thesis by simp
  qed
  show ?thesis
  proof (cases nx)
    case (Finished r)
    then show ?thesis using len dist own keep
      by (simp add: proceed_def call_inv_def)
  next
    case (Continue js)
    show ?thesis
    proof (cases js)
      case (Calling stg attempt req prompt)
      have "(cb_workers b)[i := Running decade js] ! i = Running decade js" using i by simp
      with Calling have "\<exists>d s a p. (cb_workers b)[i := Running decade js] ! i
            = Running d (Calling s a req p)" by blast
      then show ?thesis using Continue Calling len dist own keep free i
        by (auto simp add: proceed_def call_inv_def)
    next
      case (Sleeping stg attempt req prompt delay)
      then show ?thesis using Continue len dist own keep
        by (simp add: proceed_def call_inv_def)
    qed
  qed
qed

lemma owner_free:
  assumes "call_inv b" "i < length (cb_workers b)"
    and "\<And>decade stg attempt req prompt.
           cb_workers b ! i \<noteq> Running decade (Calling stg attempt req prompt)"
  shows "i \<notin> fst ` set (outstanding b)"
  using assms by (fastforce simp add: call_inv_def)

lemma remove1_owner:
  assumes "distinct (map fst xs)" "(i, r) \<in> set xs"
  shows "i \<notin> fst ` set (remove1 (i, r) xs) \<and> distinct (map fst (remove1 (i, r) xs))"
  using assms
proof (induction xs)
  case Nil
  then show ?case by simp
next
  case (Cons x xs)
  show ?case
  proof (cases "x = (i, r)")
    case True
    with Cons.prems show ?thesis by (auto simp add: image_iff)
  next
    case False
    with Cons.prems have in_xs: "(i, r) \<in> set xs" and d: "distinct (map fst xs)"
      and nx: "fst x \<notin> fst ` set xs" by auto
    from Cons.IH [OF d in_xs] have ih: "i \<notin> fst ` set (remove1 (i, r) xs)"
      "distinct (map fst (remove1 (i, r) xs))" by simp_all
    from in_xs nx have "fst x \<noteq> i" by (metis fst_conv image_eqI)
    moreover from nx have "fst x \<notin> fst ` set (remove1 (i, r) xs)"
      using set_remove1_subset [of "(i, r)" xs] by auto
    ultimately show ?thesis using False ih by auto
  qed
qed

lemma call_inv_initial:
  assumes "handleGenerateClick_calls_begin a = Some b0"
  shows "call_inv b0"
  using assms by (auto simp add: handleGenerateClick_calls_begin_def call_inv_def split: if_splits)

lemma call_inv_step:
  assumes "call_step pf b b'" "call_inv b"
  shows "call_inv b'"
  using assms
proof (cases rule: call_step.cases)
  case (start i decade q)
  let ?b = "b\<lparr>cb_queue := q\<rparr>"
  have "i \<notin> fst ` set (outstanding b)"
    using assms(2) start by (intro owner_free) simp_all
  then show ?thesis unfolding start(1)
    using assms(2) start by (intro proceed_inv) (auto simp add: call_inv_def)
next
  case (drop_empty i q)
  then show ?thesis using assms(2) by (auto simp add: call_inv_def)
next
  case (call_settles i decade stg attempt req prompt out)
  from assms(2) have d: "distinct (map fst (outstanding b))" by (simp add: call_inv_def)
  from remove1_owner [OF d call_settles(4)]
  have f: "i \<notin> fst ` set (remove1 (i, req) (outstanding b))"
    and d': "distinct (map fst (remove1 (i, req) (outstanding b)))" by simp_all
  have sub: "set (remove1 (i, req) (outstanding b)) \<subseteq> set (outstanding b)"
    by (rule set_remove1_subset)
  from assms(2) have len: "length (cb_workers b) = concurrencyLimit"
    and own: "\<forall>c \<in> set (outstanding b).
            fst c < length (cb_workers b)
            \<and> (\<exists>decade stg attempt prompt.
                  cb_workers b ! fst c = Running decade (Calling stg attempt (snd c) prompt))"
    by (auto simp add: call_inv_def)
  from own sub have own': "\<forall>c \<in> set (remove1 (i, req) (outstanding b)).
            fst c < length (cb_workers b)
            \<and> (\<exists>decade stg attempt prompt.
                  cb_workers b ! fst c = Running decade (Calling stg attempt (snd c) prompt))"
    by blast
  show ?thesis unfolding call_settles(1)
    using len call_settles(2) f d' own'
    by (intro proceed_inv) simp_all
next
  case (delay_ends i decade stg attempt req prompt delay)
  have "i \<notin> fst ` set (outstanding b)"
    using assms(2) delay_ends by (intro owner_free) simp_all
  then show ?thesis unfolding delay_ends(1)
    using assms(2) delay_ends by (intro proceed_inv) (auto simp add: call_inv_def)
next
  case (leave_loop i)
  have f: "i \<notin> fst ` set (outstanding b)"
    using assms(2) leave_loop by (intro owner_free) simp_all
  have "(cb_workers b)[i := LoopLeft] ! fst c = cb_workers b ! fst c"
    if "c \<in> set (outstanding b)" for c
  proof -
    from that f have "fst c \<noteq> i" by auto
    then show ?thesis by simp
  qed
  then show ?thesis using assms(2) leave_loop by (auto simp add: call_inv_def)
qed

lemma call_inv_reachable:
  assumes "(call_step pf)\<^sup>*\<^sup>* b0 b" "call_inv b0"
  shows "call_inv b"
  using assms by (induction rule: rtranclp_induct) (auto intro: call_inv_step)

lemma call_inv_bound:
  assumes "call_inv b"
  shows "length (outstanding b) \<le> 2"
proof -
  from assms have d: "distinct (map fst (outstanding b))"
    and sub: "set (map fst (outstanding b)) \<subseteq> {..<2}"
    by (auto simp add: call_inv_def concurrencyLimit_def)
  have "length (outstanding b) = card (set (map fst (outstanding b)))"
    using distinct_card [OF d] by simp
  also have "\<dots> \<le> card {..<2::nat}" using sub by (intro card_mono) simp_all
  finally show ?thesis by simp
qed

text \<open>
  Claim C10. The batch starts from a state with an uploaded image, with two workers and
  the six decades queued, and runs by the steps of \<open>call_step\<close>: every backend call a
  job issues is entered in \<open>outstanding\<close> and stays there until the backend settles it,
  with any outcome and in any order. In every state the batch reaches, at most two calls
  are outstanding. (They are the calls of the batch's own workers; the batch is taken on
  its own.)
\<close>

theorem batch_at_most_two_calls_outstanding:
  assumes "handleGenerateClick_calls_begin a = Some b0" "(call_step pf)\<^sup>*\<^sup>* b0 b"
  shows "length (outstanding b) \<le> 2"
  by (rule call_inv_bound [OF call_inv_reachable [OF assms(2) call_inv_initial [OF assms(1)]]])

lemma sample_job_start:
  "generateDecadeImage_start sample_url p
     = Continue (Calling Primary 1 \<lparr>imagePart = (asc ''image/png'', asc ''AAAA''), textPart = p\<rparr> p)"
  by (simp add: generateDecadeImage_start_def sample_url_matches)

lemma sample_calls_run: "(call_step pf)\<^sup>*\<^sup>* sample_calls_begin sample_two_calls"
proof -
  let ?r0 = "\<lparr>imagePart = (asc ''image/png'', asc ''AAAA''),
               textPart = getPromptForDecade strict (asc ''1950 ler'')\<rparr>"
  let ?b1 = "\<lparr>cb_app = sample_app\<lparr>generatedImages := initialImages\<rparr>,
      cb_queue = [asc ''1960 lar'', asc ''1970 ler'', asc ''1980 ler'', asc ''1990 lar'',
                  asc ''2000 ler''],
      cb_workers =
        [Running (asc ''1950 ler'')
           (Calling Primary 1 ?r0 (getPromptForDecade strict (asc ''1950 ler''))),
         LoopHead],
      outstanding = [(0, ?r0)]\<rparr>"
  have ne: "asc ''1950 ler'' \<noteq> []" "asc ''1960 lar'' \<noteq> []" by (simp_all add: asc_def)
  have 1: "call_step pf sample_calls_begin ?b1"
    using call_step.start [of 0 sample_calls_begin "asc ''1950 ler''"
        "[asc ''1960 lar'', asc ''1970 ler'', asc ''1980 ler'', asc ''1990 lar'',
          asc ''2000 ler'']" pf] ne
    by (simp add: sample_calls_begin_def DECADES_def concurrencyLimit_def numeral_2_eq_2
          sample_app_def sample_job_start proceed_def del: getPromptForDecade.simps)
  have 2: "call_step pf ?b1 sample_two_calls"
    using call_step.start [of 1 ?b1 "asc ''1960 lar''"
        "[asc ''1970 ler'', asc ''1980 ler'', asc ''1990 lar'', asc ''2000 ler'']" pf] ne
    by (simp add: sample_two_calls_def sample_app_def sample_job_start proceed_def
          del: getPromptForDecade.simps)
  from 1 2 show ?thesis by (meson rtranclp.rtrancl_into_rtrancl rtranclp.rtrancl_refl)
qed

lemma sample_calls_begin_ok:
  "handleGenerateClick_calls_begin sample_app = Some sample_calls_begin"
  by (simp add: handleGenerateClick_calls_begin_def sample_calls_begin_def sample_app_def
        present_def sample_url_def asc_def)

theorem batch_at_most_two_calls_outstanding_witness:
  "handleGenerateClick_calls_begin sample_app = Some sample_calls_begin
   \<and> (call_step sample_platform)\<^sup>*\<^sup>* sample_calls_begin sample_two_calls
   \<and> length (outstanding sample_two_calls) = 2
   \<and> length (outstanding sample_two_calls) \<le> 2"
  using batch_at_most_two_calls_outstanding [OF sample_calls_begin_ok sample_calls_run]
    sample_calls_begin_ok sample_calls_run [of sample_platform]
  by (simp add: sample_two_calls_def)

end
